theory Spec2Isabelle
  imports Main
begin

section \<open>The request director of yt\_dlp/networking\<close>

text \<open>
  The development follows \<^verbatim>\<open>yt_dlp/networking/__init__.py\<close>: the class
  \<^verbatim>\<open>RequestDirector\<close> with its handler list, the merge of the process-wide
  defaults into a request, and the dispatch loop of \<^verbatim>\<open>send\<close>.
\<close>

subsection \<open>Python values\<close>

text \<open>
  A request handler is a Python object; the director compares handlers by identity
  (\<^verbatim>\<open>in\<close>, \<^verbatim>\<open>is\<close>), so the handler list holds references and the objects live
  in a store. A Python dict keeps its insertion order and has unique keys: an association list.
\<close>

type_synonym href = nat

type_synonym pydict = "(string \<times> string) list"

text \<open>
  Modelled from the spec: the exception classes of \<^verbatim>\<open>yt_dlp/networking/exceptions.py\<close>,
  which is not among the sources. An \<^verbatim>\<open>UnsupportedRequest\<close> carries its reason text
  (\<^verbatim>\<open>msg\<close>) and a reference to the declining handler (\<^verbatim>\<open>handler\<close>); a
  \<^verbatim>\<open>RequestError\<close> carries its message.

  The \<^verbatim>\<open>try\<close> statement of \<^verbatim>\<open>send\<close> tells four cases apart among what a handler
  operation raises: \<^verbatim>\<open>UnsupportedRequest\<close> (first \<^verbatim>\<open>except\<close> clause), a
  \<^verbatim>\<open>RequestError\<close> that is not an \<^verbatim>\<open>UnsupportedRequest\<close>, any other instance of
  \<^verbatim>\<open>Exception\<close> (second clause), and what is not an \<^verbatim>\<open>Exception\<close> at all
  (\<^verbatim>\<open>KeyboardInterrupt\<close>, \<^verbatim>\<open>SystemExit\<close>), which no clause catches. The last two
  cases carry the name of their class and their text.
\<close>

datatype exn =
    UnsupportedRequest string href
  | RequestError string
  | OtherException string string
  | NonException string string

fun type_name :: "exn \<Rightarrow> string" where
  "type_name (UnsupportedRequest m h) = ''UnsupportedRequest''"
| "type_name (RequestError m) = ''RequestError''"
| "type_name (OtherException c m) = c"
| "type_name (NonException c m) = c"

fun str :: "exn \<Rightarrow> string" where
  "str (UnsupportedRequest m h) = m"
| "str (RequestError m) = m"
| "str (OtherException c m) = m"
| "str (NonException c m) = m"

text \<open>
  A handler object: its display name, its class, and its two operations on a prepared
  request. \<^verbatim>\<open>can_handle\<close> returns nothing, so its result is the exception raised, if any.
\<close>

record ('p, 'r) handler =
  RH_NAME :: string
  rh_type :: string
  can_handle :: "'p \<Rightarrow> exn option"
  handle :: "'p \<Rightarrow> exn + 'r"

text \<open>
  The host object \<^verbatim>\<open>ydl\<close>: the three settings the director reads, and the two
  sinks it writes to (\<^verbatim>\<open>to_debugtraffic\<close>, and \<^verbatim>\<open>report_error\<close> with its
  \<^verbatim>\<open>is_error\<close> flag).
\<close>

record ydl =
  http_headers :: "pydict option"
  socket_timeout :: "int option"
  ydl_proxies :: "pydict option"
  debugtraffic :: "string list"
  reported :: "(string \<times> bool) list"

text \<open>
  The request, with the three attributes that \<^verbatim>\<open>_merge_ydl\<close> assigns. A timeout is a
  number of seconds or \<^verbatim>\<open>None\<close>; the director only tests whether it is truthy.
\<close>

record request =
  url :: string
  headers :: pydict
  timeout :: "int option"
  proxies :: "pydict option"

record director =
  handlers :: "href list"
  ydl :: ydl

definition RequestDirector :: "ydl \<Rightarrow> director" where
  "RequestDirector y = \<lparr>handlers = [], ydl = y\<rparr>"

subsection \<open>The handler list\<close>

definition add_handler :: "href \<Rightarrow> director \<Rightarrow> director" where
  "add_handler h d =
     (if h \<notin> set (handlers d) then d\<lparr>handlers := handlers d @ [h]\<rparr> else d)"

text \<open>
  \<^verbatim>\<open>remove_handler\<close> and \<^verbatim>\<open>get_handlers\<close> take a class or an instance and test
  \<^verbatim>\<open>type(h) == handler or h is handler\<close>.
\<close>

datatype handler_key = Class string | Instance href

fun matches :: "(href \<Rightarrow> ('p, 'r) handler) \<Rightarrow> handler_key \<Rightarrow> href \<Rightarrow> bool" where
  "matches store (Class c) h = (rh_type (store h) = c)"
| "matches store (Instance i) h = (h = i)"

definition remove_handler ::
  "(href \<Rightarrow> ('p, 'r) handler) \<Rightarrow> handler_key \<Rightarrow> director \<Rightarrow> director" where
  "remove_handler store k d = d\<lparr>handlers := filter (\<lambda>h. \<not> matches store k h) (handlers d)\<rparr>"

text \<open>The argument of \<^verbatim>\<open>get_handlers\<close> defaults to \<^verbatim>\<open>None\<close>, which no handler matches.\<close>

definition get_handlers ::
  "(href \<Rightarrow> ('p, 'r) handler) \<Rightarrow> handler_key option \<Rightarrow> director \<Rightarrow> href list" where
  "get_handlers store k d =
     (case k of
        None \<Rightarrow> []
      | Some key \<Rightarrow> filter (\<lambda>h. matches store key h) (handlers d))"

definition replace_handler ::
  "(href \<Rightarrow> ('p, 'r) handler) \<Rightarrow> href \<Rightarrow> director \<Rightarrow> director" where
  "replace_handler store h d = add_handler h (remove_handler store (Instance h) d)"

subsection \<open>Merging the process-wide defaults\<close>

text \<open>
  Modelled from the spec: \<^verbatim>\<open>CaseInsensitiveDict\<close> of \<^verbatim>\<open>yt_dlp/utils\<close>, which is
  not among the sources. It is a dict built from several dicts in turn, later ones
  overriding earlier ones, whose keys are compared without regard to letter case: every
  key is stored in one canonical case.
\<close>

definition lower :: "char \<Rightarrow> char" where
  "lower c =
     (case map_of (zip ''ABCDEFGHIJKLMNOPQRSTUVWXYZ'' ''abcdefghijklmnopqrstuvwxyz'') c of
        None \<Rightarrow> c
      | Some l \<Rightarrow> l)"

definition fold_case :: "string \<Rightarrow> string" where
  "fold_case k = map lower k"

text \<open>\<^verbatim>\<open>d[k] = v\<close> on a Python dict: a key already present keeps its position.\<close>

fun setitem :: "'k \<Rightarrow> 'v \<Rightarrow> ('k \<times> 'v) list \<Rightarrow> ('k \<times> 'v) list" where
  "setitem k v [] = [(k, v)]"
| "setitem k v ((k', v') # d) = (if k' = k then (k', v) # d else (k', v') # setitem k v d)"

definition ci_update :: "pydict \<Rightarrow> pydict \<Rightarrow> pydict" where
  "ci_update dct self = fold (\<lambda>(k, v). setitem (fold_case k) v) dct self"

definition CaseInsensitiveDict :: "pydict list \<Rightarrow> pydict" where
  "CaseInsensitiveDict args = fold ci_update args []"

definition ci_get :: "pydict \<Rightarrow> string \<Rightarrow> string option" where
  "ci_get d k = map_of d (fold_case k)"

text \<open>
  Python's \<^verbatim>\<open>x or y\<close> is \<^verbatim>\<open>x\<close> when \<^verbatim>\<open>x\<close> is truthy: a number other than zero, a
  dict with an entry. \<^verbatim>\<open>None\<close>, \<^verbatim>\<open>0\<close> and \<^verbatim>\<open>{}\<close> are falsy.
\<close>

fun truthy_num :: "int option \<Rightarrow> bool" where
  "truthy_num None = False"
| "truthy_num (Some n) = (n \<noteq> 0)"

fun truthy_dict :: "pydict option \<Rightarrow> bool" where
  "truthy_dict None = False"
| "truthy_dict (Some d) = (d \<noteq> [])"

text \<open>
  \<^verbatim>\<open>_merge_ydl\<close> assigns to three attributes of the request it is given and returns
  that same object: the value below is the caller's request after the call.
\<close>

definition merge_ydl :: "ydl \<Rightarrow> request \<Rightarrow> request" where
  "merge_ydl y request = request
     \<lparr>headers := CaseInsensitiveDict
                   [case http_headers y of None \<Rightarrow> [] | Some d \<Rightarrow> d, headers request],
      timeout := (if truthy_num (timeout request) then timeout request else socket_timeout y),
      proxies := (if truthy_dict (proxies request) then proxies request else ydl_proxies y)\<rparr>"

subsection \<open>Dispatch\<close>

definition to_debugtraffic :: "string \<Rightarrow> ydl \<Rightarrow> ydl" where
  "to_debugtraffic m y = y\<lparr>debugtraffic := debugtraffic y @ [m]\<rparr>"

definition report_error :: "string \<Rightarrow> bool \<Rightarrow> ydl \<Rightarrow> ydl" where
  "report_error m is_error y = y\<lparr>reported := reported y @ [(m, is_error)]\<rparr>"

definition dq :: string where
  "dq = [CHR 0x22]"

text \<open>The handler operations performed, in order: which handlers were consulted.\<close>

datatype call = CanHandle href | Handle href

fun callee :: "call \<Rightarrow> href" where
  "callee (CanHandle h) = h"
| "callee (Handle h) = h"

text \<open>
  The variables of the loop of \<^verbatim>\<open>send\<close>. Of a recorded \<^verbatim>\<open>UnsupportedRequest\<close> the
  report reads \<^verbatim>\<open>msg\<close> and \<^verbatim>\<open>handler\<close> only, so these two are kept.
\<close>

record loop_state =
  unexpected_errors :: "exn list"
  unsupported_errors :: "(string \<times> href) list"
  host :: ydl
  calls :: "call list"

text \<open>The three f-strings of the loop.\<close>

definition forwarding_message :: "string \<Rightarrow> string" where
  "forwarding_message name = ''Forwarding request to '' @ dq @ name @ dq @ '' request handler''"

definition cannot_handle_message :: "string \<Rightarrow> exn \<Rightarrow> string" where
  "cannot_handle_message name e =
     dq @ name @ dq
     @ '' request handler cannot handle this request, trying another handler... (cause: ''
     @ type_name e @ '':'' @ str e @ '')''"

definition unexpected_message :: "string \<Rightarrow> string \<Rightarrow> exn \<Rightarrow> string" where
  "unexpected_message brm name e =
     ''Unexpected error from '' @ dq @ name @ dq @ '' request handler: ''
     @ type_name e @ '':'' @ str e @ brm"

text \<open>
  How one pass through the loop body ends: \<^verbatim>\<open>return response\<close>, an exception that
  leaves \<^verbatim>\<open>send\<close>, or \<^verbatim>\<open>continue\<close>.
\<close>

datatype 'r flow = Return 'r | Raise exn | Continue

text \<open>
  The two \<^verbatim>\<open>except\<close> clauses, for an exception raised in the \<^verbatim>\<open>try\<close> body by
  the handler named \<open>name\<close>. \<open>brm\<close> is the text of \<^verbatim>\<open>bug_reports_message()\<close>,
  which is not among the sources.
\<close>

fun except :: "string \<Rightarrow> string \<Rightarrow> exn \<Rightarrow> loop_state \<Rightarrow> 'r flow \<times> loop_state" where
  "except brm name (UnsupportedRequest m h) s = (Continue, s
     \<lparr>unsupported_errors := unsupported_errors s @ [(m, h)],
      host := to_debugtraffic (cannot_handle_message name (UnsupportedRequest m h)) (host s)\<rparr>)"
| "except brm name (RequestError m) s = (Raise (RequestError m), s)"
| "except brm name (OtherException c m) s = (Continue, s
     \<lparr>unexpected_errors := unexpected_errors s @ [OtherException c m],
      host := report_error (unexpected_message brm name (OtherException c m)) False (host s)\<rparr>)"
| "except brm name (NonException c m) s = (Raise (NonException c m), s)"

text \<open>The loop body for the handler \<open>h\<close> and the prepared request \<open>p\<close>.\<close>

definition iteration ::
  "(href \<Rightarrow> ('p, 'r) handler) \<Rightarrow> string \<Rightarrow> 'p \<Rightarrow> href \<Rightarrow> loop_state \<Rightarrow> 'r flow \<times> loop_state" where
  "iteration store brm p h s =
     (let s1 = s\<lparr>host := to_debugtraffic (forwarding_message (RH_NAME (store h))) (host s),
                 calls := calls s @ [CanHandle h]\<rparr>
      in case can_handle (store h) p of
           Some e \<Rightarrow> except brm (RH_NAME (store h)) e s1
         | None \<Rightarrow>
             (let s2 = s1\<lparr>calls := calls s1 @ [Handle h]\<rparr>
              in case handle (store h) p of
                   Inl e \<Rightarrow> except brm (RH_NAME (store h)) e s2
                 | Inr response \<Rightarrow> (Return response, s2)))"

text \<open>
  The loop over the reversed handler list. \<open>Continue\<close> as the result of the whole loop:
  it ran to its end, and the statements after it follow.
\<close>

fun dispatch ::
  "(href \<Rightarrow> ('p, 'r) handler) \<Rightarrow> string \<Rightarrow> 'p \<Rightarrow> href list \<Rightarrow> loop_state
    \<Rightarrow> 'r flow \<times> loop_state" where
  "dispatch store brm p [] s = (Continue, s)"
| "dispatch store brm p (h # hs) s =
     (case iteration store brm p h s of
        (Continue, s') \<Rightarrow> dispatch store brm p hs s'
      | (Return response, s') \<Rightarrow> (Return response, s')
      | (Raise e, s') \<Rightarrow> (Raise e, s'))"

subsection \<open>The report after the loop\<close>

text \<open>\<^verbatim>\<open>err_handler_map.setdefault(k, []).append(v)\<close>\<close>

fun setdefault_append :: "'k \<Rightarrow> 'v \<Rightarrow> ('k \<times> 'v list) list \<Rightarrow> ('k \<times> 'v list) list" where
  "setdefault_append k v [] = [(k, [v])]"
| "setdefault_append k v ((k', vs) # m) =
     (if k' = k then (k', vs @ [v]) # m else (k', vs) # setdefault_append k v m)"

definition err_handler_map ::
  "(href \<Rightarrow> ('p, 'r) handler) \<Rightarrow> (string \<times> href) list \<Rightarrow> (string \<times> string list) list" where
  "err_handler_map store errs =
     fold (\<lambda>(m, h). setdefault_append m (RH_NAME (store h))) errs []"

fun str_join :: "string \<Rightarrow> string list \<Rightarrow> string" where
  "str_join sep [] = []"
| "str_join sep [x] = x"
| "str_join sep (x # y # ys) = x @ sep @ str_join sep (y # ys)"

definition digit :: "nat \<Rightarrow> char" where
  "digit n = ''0123456789'' ! n"

fun str_nat :: "nat \<Rightarrow> string" where
  "str_nat n = (if n < 10 then [digit n] else str_nat (n div 10) @ [digit (n mod 10)])"

definition reason :: "string \<times> string list \<Rightarrow> string" where
  "reason e = (case e of (msg, names) \<Rightarrow> msg @ '' ('' @ str_join '', '' names @ '')'')"

definition reasons ::
  "(href \<Rightarrow> ('p, 'r) handler) \<Rightarrow> (string \<times> href) list \<Rightarrow> exn list \<Rightarrow> string list" where
  "reasons store unsupported unexpected =
     map reason (err_handler_map store unsupported)
     @ (if unexpected \<noteq> []
        then [str_nat (length unexpected) @ '' unexpected error(s)''] else [])"

definition err_str :: "string list \<Rightarrow> string" where
  "err_str rs =
     ''Unable to handle request''
     @ (if rs \<noteq> [] then '', possible reason(s): '' @ str_join '', '' rs else [])"

subsection \<open>send\<close>

text \<open>The loop starts with both lists empty.\<close>

definition start :: "ydl \<Rightarrow> loop_state" where
  "start y = \<lparr>unexpected_errors = [], unsupported_errors = [], host = y, calls = []\<rparr>"

text \<open>
  What a call of \<^verbatim>\<open>send\<close> leaves behind: its result (\<open>Inl\<close> the exception raised),
  the host object with what was written to its sinks, the caller's request object, and
  the handler operations performed. \<open>prepare\<close> stands for \<^verbatim>\<open>Request.prepare\<close>, which
  is not among the sources.
\<close>

record 'r sent =
  result :: "exn + 'r"
  host_after :: ydl
  request_after :: request
  performed :: "call list"

definition send ::
  "(href \<Rightarrow> ('p, 'r) handler) \<Rightarrow> (request \<Rightarrow> 'p) \<Rightarrow> string \<Rightarrow> director \<Rightarrow> request \<Rightarrow> 'r sent" where
  "send store prepare brm d request =
     (if length (handlers d) = 0
      then \<lparr>result = Inl (RequestError ''No request handlers configured''),
            host_after = ydl d, request_after = request, performed = []\<rparr>
      else
        let merged = merge_ydl (ydl d) request;
            prepared_request = prepare merged;
            (r, s) = dispatch store brm prepared_request (rev (handlers d)) (start (ydl d))
        in \<lparr>result =
              (case r of
                 Return response \<Rightarrow> Inr response
               | Raise e \<Rightarrow> Inl e
               | Continue \<Rightarrow> Inl (RequestError
                   (err_str (reasons store (unsupported_errors s) (unexpected_errors s))))),
            host_after = host s, request_after = merged, performed = calls s\<rparr>)"

text \<open>
  The states of a director that the operations of the class produce: the handler list
  changes by \<^verbatim>\<open>add_handler\<close>, \<^verbatim>\<open>remove_handler\<close> and \<^verbatim>\<open>replace_handler\<close>,
  and \<^verbatim>\<open>send\<close> writes to the host.
\<close>

inductive registry :: "(href \<Rightarrow> ('p, 'r) handler) \<Rightarrow> director \<Rightarrow> bool"
  for store :: "href \<Rightarrow> ('p, 'r) handler" where
  init: "registry store (RequestDirector y)"
| add: "registry store d \<Longrightarrow> registry store (add_handler h d)"
| remove: "registry store d \<Longrightarrow> registry store (remove_handler store k d)"
| replace: "registry store d \<Longrightarrow> registry store (replace_handler store h d)"
| sent: "registry store d \<Longrightarrow>
     registry store (d\<lparr>ydl := host_after (send store prepare brm d request)\<rparr>)"

subsection \<open>Vocabulary for the properties\<close>

text \<open>The \<^verbatim>\<open>try\<close> body for one handler: \<^verbatim>\<open>can_handle\<close>, then \<^verbatim>\<open>handle\<close>.\<close>

definition attempt :: "('p, 'r) handler \<Rightarrow> 'p \<Rightarrow> exn + 'r" where
  "attempt rh p = (case can_handle rh p of Some e \<Rightarrow> Inl e | None \<Rightarrow> handle rh p)"

text \<open>What the first and the second \<^verbatim>\<open>except\<close> clause record of an attempt.\<close>

fun declination :: "exn + 'r \<Rightarrow> (string \<times> href) list" where
  "declination (Inl (UnsupportedRequest m r)) = [(m, r)]"
| "declination _ = []"

fun fault :: "exn + 'r \<Rightarrow> exn list" where
  "fault (Inl (OtherException c m)) = [OtherException c m]"
| "fault _ = []"

fun verdict :: "exn + 'r \<Rightarrow> 'r flow" where
  "verdict (Inr response) = Return response"
| "verdict (Inl (UnsupportedRequest m r)) = Continue"
| "verdict (Inl (RequestError m)) = Raise (RequestError m)"
| "verdict (Inl (OtherException c m)) = Continue"
| "verdict (Inl (NonException c m)) = Raise (NonException c m)"

text \<open>A handler declines or faults: the loop goes on to the next one.\<close>

definition skipped :: "('p, 'r) handler \<Rightarrow> 'p \<Rightarrow> bool" where
  "skipped rh p = (declination (attempt rh p) \<noteq> [] \<or> fault (attempt rh p) \<noteq> [])"

text \<open>The operations of a handler that one pass through the loop body performs.\<close>

definition tried :: "(href \<Rightarrow> ('p, 'r) handler) \<Rightarrow> 'p \<Rightarrow> href \<Rightarrow> call list" where
  "tried store p h =
     (case can_handle (store h) p of
        Some e \<Rightarrow> [CanHandle h]
      | None \<Rightarrow> [CanHandle h, Handle h])"

text \<open>
  A dict read without regard to letter case, in the words of the spec: of the entries
  whose key is the given one up to case, the last one counts.
\<close>

definition ci_lookup :: "pydict \<Rightarrow> string \<Rightarrow> string option" where
  "ci_lookup d k =
     (let es = filter (\<lambda>e. fold_case (fst e) = fold_case k) d
      in if es = [] then None else Some (snd (last es)))"

text \<open>
  The report in the words of the spec: the recorded reasons grouped by message text,
  each distinct text once, in the order of its first occurrence, with the names of the
  handlers of all records that have this text.
\<close>

definition grouped ::
  "(href \<Rightarrow> ('p, 'r) handler) \<Rightarrow> (string \<times> href) list \<Rightarrow> (string \<times> string list) list" where
  "grouped store errs =
     map (\<lambda>m. (m, map (\<lambda>e. RH_NAME (store (snd e))) (filter (\<lambda>e. fst e = m) errs)))
       (rev (remdups (rev (map fst errs))))"

text \<open>
  The operations performed by the loop over a list of handlers: those of each handler in
  turn, up to and including the first one that neither declines nor faults.
\<close>

fun visited :: "(href \<Rightarrow> ('p, 'r) handler) \<Rightarrow> 'p \<Rightarrow> href list \<Rightarrow> call list" where
  "visited store p [] = []"
| "visited store p (h # hs) =
     tried store p h @ (if skipped (store h) p then visited store p hs else [])"

text \<open>
  What \<^verbatim>\<open>send\<close> returns or raises, given how the loop ended and what it had recorded
  by then.
\<close>

definition outcome :: "(href \<Rightarrow> ('p, 'r) handler) \<Rightarrow> 'r flow \<times> loop_state \<Rightarrow> exn + 'r" where
  "outcome store D =
     (case fst D of
        Return response \<Rightarrow> Inr response
      | Raise e \<Rightarrow> Inl e
      | Continue \<Rightarrow> Inl (RequestError
          (err_str (reasons store (unsupported_errors (snd D)) (unexpected_errors (snd D))))))"

text \<open>
  A list of texts written out with a separator: the first text, and then each further
  text after a separator.
\<close>

definition joined :: "string \<Rightarrow> string list \<Rightarrow> string" where
  "joined sep xs = (case xs of [] \<Rightarrow> [] | x # ys \<Rightarrow> x @ concat (map (\<lambda>y. sep @ y) ys))"

text \<open>
  A text is the decimal numeral of a number: it consists of digits, has no leading zero
  unless it is \<^verbatim>\<open>0\<close>, and read in base ten it is the number.
\<close>

definition digit_value :: "char \<Rightarrow> nat" where
  "digit_value c =
     (case map_of (zip ''0123456789'' [0, 1, 2, 3, 4, 5, 6, 7, 8, 9]) c of
        None \<Rightarrow> 0
      | Some v \<Rightarrow> v)"

definition numeral_value :: "string \<Rightarrow> nat" where
  "numeral_value ds = foldl (\<lambda>a c. 10 * a + digit_value c) 0 ds"

definition is_decimal :: "string \<Rightarrow> nat \<Rightarrow> bool" where
  "is_decimal ds n \<longleftrightarrow>
     ds \<noteq> [] \<and> set ds \<subseteq> set ''0123456789'' \<and> (hd ds = CHR ''0'' \<longrightarrow> ds = ''0'')
     \<and> numeral_value ds = n"

subsection \<open>Sample handlers\<close>

definition sample_rh ::
  "string \<Rightarrow> exn option \<Rightarrow> exn + string \<Rightarrow> (request, string) handler" where
  "sample_rh name c h = \<lparr>RH_NAME = name, rh_type = name @ ''RH'', can_handle = (\<lambda>p. c), handle = (\<lambda>p. h)\<rparr>"

text \<open>
  Handler 0 (A) and every handler from 6 on decline with the same reason, 1 (B)
  succeeds, 2 (C) fails in \<^verbatim>\<open>handle\<close> with a \<^verbatim>\<open>RequestError\<close>, 3 (D) with a
  \<^verbatim>\<open>ValueError\<close>, 4 (E) is interrupted, 5 (F) declines in \<^verbatim>\<open>handle\<close>.
\<close>

definition sample_store :: "href \<Rightarrow> (request, string) handler" where
  "sample_store h =
     (if h = 0 then sample_rh ''A'' (Some (UnsupportedRequest ''unsupported url scheme'' 0)) (Inr [])
      else if h = 1 then sample_rh ''B'' None (Inr ''response of B'')
      else if h = 2 then sample_rh ''C'' None (Inl (RequestError ''connection refused''))
      else if h = 3 then sample_rh ''D'' None (Inl (OtherException ''ValueError'' ''bad state''))
      else if h = 4 then sample_rh ''E'' None (Inl (NonException ''KeyboardInterrupt'' []))
      else if h = 5 then sample_rh ''F'' None (Inl (UnsupportedRequest ''unsupported proxy type'' 5))
      else sample_rh ''G'' (Some (UnsupportedRequest ''unsupported url scheme'' h)) (Inr []))"

definition sample_ydl :: ydl where
  "sample_ydl =
     \<lparr>http_headers = Some [(''User-Agent'', ''yt-dlp''), (''Accept'', ''*/*'')],
      socket_timeout = Some 20,
      ydl_proxies = Some [(''http'', ''proxy.example:3128'')],
      debugtraffic = [], reported = []\<rparr>"

definition sample_request :: request where
  "sample_request =
     \<lparr>url = ''http://x'', headers = [(''user-agent'', ''curl'')], timeout = None, proxies = None\<rparr>"

definition sample_director :: "href list \<Rightarrow> director" where
  "sample_director hs = \<lparr>handlers = hs, ydl = sample_ydl\<rparr>"

section \<open>Properties\<close>

declare str_nat.simps [simp del]

lemmas sample_defs =
  sample_store_def sample_rh_def sample_ydl_def sample_request_def sample_director_def

lemmas send_defs =
  send_def start_def iteration_def to_debugtraffic_def report_error_def merge_ydl_def Let_def

subsection \<open>The handler list\<close>

lemma handlers_add_handler:
  "handlers (add_handler h d) = (if h \<in> set (handlers d) then handlers d else handlers d @ [h])"
  by (simp add: add_handler_def)

lemma handlers_remove_handler:
  "handlers (remove_handler store k d) = filter (\<lambda>h. \<not> matches store k h) (handlers d)"
  by (simp add: remove_handler_def)

lemma handlers_replace_handler:
  "handlers (replace_handler store h d) = filter (\<lambda>x. x \<noteq> h) (handlers d) @ [h]"
  by (simp add: replace_handler_def handlers_add_handler handlers_remove_handler)

lemma registry_distinct: "registry store d \<Longrightarrow> distinct (handlers d)"
proof (induction rule: registry.induct)
  case (init y)
  show ?case by (simp add: RequestDirector_def)
next
  case (add d h)
  then show ?case by (simp add: handlers_add_handler)
next
  case (remove d k)
  then show ?case by (simp add: handlers_remove_handler)
next
  case (replace d h)
  then show ?case by (simp add: handlers_replace_handler)
next
  case (sent d prepare brm request)
  then show ?case by simp
qed

text \<open>
  C8. In every state that the operations of the class produce from a new director, no
  handler occurs twice in the handler list, also after one more \<^verbatim>\<open>add_handler\<close>.
  \<^verbatim>\<open>add_handler(h)\<close> appends \<open>h\<close> when it is not in the list, and changes nothing
  when it is: \<open>h\<close> keeps its position, so its priority is not refreshed.
\<close>

theorem add_handler_once:
  assumes "registry store d"
  shows "distinct (handlers d)
    \<and> distinct (handlers (add_handler h d))
    \<and> (h \<notin> set (handlers d) \<longrightarrow> add_handler h d = d\<lparr>handlers := handlers d @ [h]\<rparr>)
    \<and> (h \<in> set (handlers d) \<longrightarrow> add_handler h d = d)"
  using registry_distinct [OF assms] registry_distinct [OF registry.add [OF assms, of h]]
  by (simp add: add_handler_def)

text \<open>
  C8 at a director to which handlers 0 and 1 were added: adding 0 again changes nothing,
  adding 2 appends it.
\<close>

theorem add_handler_once_witness:
  "registry sample_store (add_handler 1 (add_handler 0 (RequestDirector sample_ydl)))
   \<and> handlers (add_handler 1 (add_handler 0 (RequestDirector sample_ydl))) = [0, 1]
   \<and> add_handler 0 (add_handler 1 (add_handler 0 (RequestDirector sample_ydl)))
       = add_handler 1 (add_handler 0 (RequestDirector sample_ydl))
   \<and> handlers (add_handler 2 (add_handler 1 (add_handler 0 (RequestDirector sample_ydl))))
       = [0, 1, 2]
   \<and> distinct (handlers (add_handler 2 (add_handler 1 (add_handler 0 (RequestDirector sample_ydl)))))"
proof -
  let ?d = "add_handler 1 (add_handler 0 (RequestDirector sample_ydl))"
  have r: "registry sample_store ?d"
    by (intro registry.add registry.init)
  have h: "handlers ?d = [0, 1]"
    by (simp add: add_handler_def RequestDirector_def)
  show ?thesis
    using r h add_handler_once [OF r, of 0] add_handler_once [OF r, of 2]
    by simp
qed

text \<open>
  C9. \<^verbatim>\<open>replace_handler(h)\<close> is \<^verbatim>\<open>remove_handler(h)\<close> followed by
  \<^verbatim>\<open>add_handler(h)\<close>. Whatever the list was, afterwards it is the old list without
  \<open>h\<close>, followed by \<open>h\<close>: \<open>h\<close> is in the last slot, the one tried first, and occurs
  once.
\<close>

theorem replace_handler_moves:
  "replace_handler store h d = add_handler h (remove_handler store (Instance h) d)
   \<and> handlers (replace_handler store h d) = filter (\<lambda>x. x \<noteq> h) (handlers d) @ [h]
   \<and> last (handlers (replace_handler store h d)) = h
   \<and> count_list (handlers (replace_handler store h d)) h = 1"
  by (simp add: handlers_replace_handler replace_handler_def [symmetric] count_list_0_iff)

subsection \<open>No handlers\<close>

text \<open>
  C5, amended. With an empty handler list \<^verbatim>\<open>send\<close> raises a \<^verbatim>\<open>RequestError\<close> whose
  message is \<^verbatim>\<open>No request handlers configured\<close>. Nothing else happens: the request is
  not merged or prepared, nothing is written to the host's sinks, and no handler
  operation is performed.
\<close>

theorem send_without_handlers:
  "send store prepare brm (d\<lparr>handlers := []\<rparr>) request =
     \<lparr>result = Inl (RequestError ''No request handlers configured''),
      host_after = ydl d, request_after = request, performed = []\<rparr>"
  by (simp add: send_def)

text \<open>
  C5 as stated names the message \<^verbatim>\<open>no handlers configured\<close>; the error that
  \<^verbatim>\<open>send\<close> raises on a new director has another message.
\<close>

theorem send_without_handlers_message:
  "result (send sample_store (\<lambda>r. r) [] (RequestDirector sample_ydl) sample_request)
     \<noteq> Inl (RequestError ''no handlers configured'')"
  by (simp add: send_def RequestDirector_def)

subsection \<open>Merging the defaults\<close>

lemma map_of_setitem: "map_of (setitem k v d) = (map_of d)(k \<mapsto> v)"
  by (induction d) auto

lemma map_of_fold_setitem:
  "map_of (fold (\<lambda>(k, v). setitem (f k) v) d acc)
     = map_of acc ++ map_of (rev (map (\<lambda>(k, v). (f k, v)) d))"
proof (induction d arbitrary: acc)
  case Nil
  show ?case by simp
next
  case (Cons e d)
  obtain k v where e: "e = (k, v)" by (cases e)
  let ?M = "map_of (rev (map (\<lambda>(k, v). (f k, v)) d))"
  have "map_of (fold (\<lambda>(k, v). setitem (f k) v) (e # d) acc) = (map_of acc)(f k \<mapsto> v) ++ ?M"
    by (simp add: e Cons.IH map_of_setitem fun_upd_def)
  also have "\<dots> = map_of acc ++ (map_of [(f k, v)] ++ ?M)"
    by (rule ext) (simp add: map_add_def split: option.splits)
  also have "\<dots> = map_of acc ++ map_of (rev (map (\<lambda>(k, v). (f k, v)) (e # d)))"
    by (simp add: e map_of_append)
  finally show ?case .
qed

lemma map_of_rev_ci:
  "map_of (rev (map (\<lambda>(k, v). (fold_case k, v)) d)) (fold_case k) = ci_lookup d k"
proof (induction d rule: rev_induct)
  case Nil
  show ?case by (simp add: ci_lookup_def)
next
  case (snoc e d)
  obtain k' v where e: "e = (k', v)" by (cases e)
  show ?case
  proof (cases "fold_case k' = fold_case k")
    case True
    then show ?thesis
      by (simp add: e ci_lookup_def)
  next
    case False
    with snoc show ?thesis
      by (simp add: e ci_lookup_def)
  qed
qed

lemma ci_get_CaseInsensitiveDict:
  "ci_get (CaseInsensitiveDict [a, b]) k
     = (case ci_lookup b k of Some v \<Rightarrow> Some v | None \<Rightarrow> ci_lookup a k)"
  by (simp add: ci_get_def CaseInsensitiveDict_def ci_update_def map_of_fold_setitem
      map_of_rev_ci map_add_def split: option.splits)

text \<open>
  C7, amended. For every request and all defaults, after \<^verbatim>\<open>_merge_ydl\<close>: a header
  read without regard to case has the value the request's own headers give it, and
  where they give none the value of the default headers; the timeout is the request's
  if that is set and not zero, otherwise the default timeout; the proxy map is the
  request's if that is set and not empty, otherwise the default proxy map.
\<close>

theorem merge_ydl_defaults:
  "ci_get (headers (merge_ydl y r)) k
     = (case ci_lookup (headers r) k of
          Some v \<Rightarrow> Some v
        | None \<Rightarrow> ci_lookup (case http_headers y of None \<Rightarrow> [] | Some d \<Rightarrow> d) k)
   \<and> timeout (merge_ydl y r)
     = (case timeout r of
          None \<Rightarrow> socket_timeout y
        | Some t \<Rightarrow> if t = 0 then socket_timeout y else Some t)
   \<and> proxies (merge_ydl y r)
     = (case proxies r of
          None \<Rightarrow> ydl_proxies y
        | Some m \<Rightarrow> if m = [] then ydl_proxies y else Some m)
   \<and> url (merge_ydl y r) = url r"
  by (simp add: merge_ydl_def ci_get_CaseInsensitiveDict split: option.splits)

text \<open>
  C7 as stated lets a timeout that is set win. A request whose timeout is set to 0 gets
  the default timeout of 20: \<^verbatim>\<open>request.timeout or ...\<close> takes 0 for unset.
\<close>

theorem merge_ydl_zero_timeout:
  "timeout (sample_request\<lparr>timeout := Some 0\<rparr>) = Some 0
   \<and> timeout (merge_ydl sample_ydl (sample_request\<lparr>timeout := Some 0\<rparr>)) = Some 20"
  by (simp add: merge_ydl_def sample_ydl_def)

text \<open>
  C6 says that \<^verbatim>\<open>send\<close> leaves the caller's request as it was. \<^verbatim>\<open>_merge_ydl\<close>
  assigns to the attributes of the object it is given (its comment: a copy is yet to be
  made), so after a \<^verbatim>\<open>send\<close> that handler B answers, the caller's request, which had
  no timeout, has the default timeout.
\<close>

theorem send_changes_request:
  "timeout sample_request = None
   \<and> timeout (request_after
        (send sample_store (\<lambda>r. r) [] (sample_director [1]) sample_request)) = Some 20
   \<and> request_after (send sample_store (\<lambda>r. r) [] (sample_director [1]) sample_request)
       \<noteq> sample_request"
  by (simp add: send_defs sample_defs)

subsection \<open>The loop\<close>

lemma skipped_verdict: "skipped rh p \<longleftrightarrow> verdict (attempt rh p) = Continue"
  unfolding skipped_def by (cases "attempt rh p" rule: verdict.cases) simp_all

lemma fst_except: "fst (except brm name e s) = verdict (Inl e)"
  by (cases e) simp_all

lemma unsupported_except:
  "unsupported_errors (snd (except brm name e s :: 'r flow \<times> loop_state))
     = unsupported_errors s @ declination (Inl e :: exn + 'r)"
  by (cases e) simp_all

lemma unexpected_except:
  "unexpected_errors (snd (except brm name e s :: 'r flow \<times> loop_state))
     = unexpected_errors s @ fault (Inl e :: exn + 'r)"
  by (cases e) simp_all

lemma calls_except: "calls (snd (except brm name e s)) = calls s"
  by (cases e) simp_all

lemma reported_except:
  "reported (host (snd (except brm name e s :: 'r flow \<times> loop_state)))
     = reported (host s)
       @ map (\<lambda>x. (unexpected_message brm name x, False)) (fault (Inl e :: exn + 'r))"
  by (cases e) (simp_all add: report_error_def to_debugtraffic_def)

lemma fst_iteration: "fst (iteration store brm p h s) = verdict (attempt (store h) p)"
  by (simp add: iteration_def attempt_def Let_def fst_except split: option.splits sum.splits)

lemma unsupported_iteration:
  "unsupported_errors (snd (iteration store brm p h s))
     = unsupported_errors s @ declination (attempt (store h) p)"
  by (simp add: iteration_def attempt_def Let_def unsupported_except
      split: option.splits sum.splits)

lemma unexpected_iteration:
  "unexpected_errors (snd (iteration store brm p h s))
     = unexpected_errors s @ fault (attempt (store h) p)"
  by (simp add: iteration_def attempt_def Let_def unexpected_except
      split: option.splits sum.splits)

lemma calls_iteration:
  "calls (snd (iteration store brm p h s)) = calls s @ tried store p h"
  by (simp add: iteration_def tried_def Let_def calls_except split: option.splits sum.splits)

lemma reported_iteration:
  "reported (host (snd (iteration store brm p h s)))
     = reported (host s)
       @ map (\<lambda>x. (unexpected_message brm (RH_NAME (store h)) x, False))
           (fault (attempt (store h) p))"
  by (simp add: iteration_def attempt_def Let_def reported_except to_debugtraffic_def
      split: option.splits sum.splits)

lemma iteration_fault:
  assumes "can_handle (store h) p = None" and "handle (store h) p = Inl (OtherException c m)"
  shows "iteration store brm p h s = (Continue, s
     \<lparr>unexpected_errors := unexpected_errors s @ [OtherException c m],
      host := report_error (unexpected_message brm (RH_NAME (store h)) (OtherException c m)) False
               (to_debugtraffic (forwarding_message (RH_NAME (store h))) (host s)),
      calls := calls s @ [CanHandle h, Handle h]\<rparr>)"
  using assms by (simp add: iteration_def Let_def)

lemma dispatch_Cons:
  "dispatch store brm p (h # hs) s =
     (if verdict (attempt (store h) p) = Continue
      then dispatch store brm p hs (snd (iteration store brm p h s))
      else iteration store brm p h s)"
  using fst_iteration [of store brm p h s]
  by (cases "iteration store brm p h s") (auto split: flow.splits)

declare dispatch.simps(2) [simp del]

lemma dispatch_append:
  "fst (dispatch store brm p pre s) = Continue \<Longrightarrow>
   dispatch store brm p (pre @ rest) s
     = dispatch store brm p rest (snd (dispatch store brm p pre s))"
proof (induction pre arbitrary: s)
  case Nil
  show ?case by simp
next
  case (Cons h pre)
  then show ?case
    by (simp add: dispatch_Cons fst_iteration split: if_splits)
qed

lemma dispatch_exhausts_iff:
  "fst (dispatch store brm p hs s) = Continue \<longleftrightarrow> (\<forall>g\<in>set hs. skipped (store g) p)"
proof (induction hs arbitrary: s)
  case Nil
  show ?case by simp
next
  case (Cons h hs)
  then show ?case
    by (simp add: dispatch_Cons fst_iteration skipped_verdict)
qed

lemma dispatch_unsupported:
  "\<forall>g\<in>set hs. skipped (store g) p \<Longrightarrow>
   unsupported_errors (snd (dispatch store brm p hs s))
     = unsupported_errors s @ concat (map (\<lambda>g. declination (attempt (store g) p)) hs)"
  by (induction hs arbitrary: s)
    (simp_all add: dispatch_Cons skipped_verdict unsupported_iteration)

lemma dispatch_unexpected:
  "\<forall>g\<in>set hs. skipped (store g) p \<Longrightarrow>
   unexpected_errors (snd (dispatch store brm p hs s))
     = unexpected_errors s @ concat (map (\<lambda>g. fault (attempt (store g) p)) hs)"
  by (induction hs arbitrary: s)
    (simp_all add: dispatch_Cons skipped_verdict unexpected_iteration)

lemma dispatch_calls:
  "\<forall>g\<in>set hs. skipped (store g) p \<Longrightarrow>
   calls (snd (dispatch store brm p hs s)) = calls s @ concat (map (tried store p) hs)"
  by (induction hs arbitrary: s)
    (simp_all add: dispatch_Cons skipped_verdict calls_iteration)

text \<open>The loop stops at the first handler that is not skipped.\<close>

lemma dispatch_stops:
  assumes pre: "\<forall>g\<in>set pre. skipped (store g) p"
    and h: "verdict (attempt (store h) p) \<noteq> Continue"
  shows "fst (dispatch store brm p (pre @ h # post) s) = verdict (attempt (store h) p)"
    and "calls (snd (dispatch store brm p (pre @ h # post) s))
           = calls s @ concat (map (tried store p) pre) @ tried store p h"
proof -
  let ?s = "snd (dispatch store brm p pre s)"
  have "fst (dispatch store brm p pre s) = Continue"
    using pre by (simp add: dispatch_exhausts_iff)
  then have eq: "dispatch store brm p (pre @ h # post) s = iteration store brm p h ?s"
    using h by (simp add: dispatch_append dispatch_Cons)
  show "fst (dispatch store brm p (pre @ h # post) s) = verdict (attempt (store h) p)"
    by (simp add: eq fst_iteration)
  show "calls (snd (dispatch store brm p (pre @ h # post) s))
           = calls s @ concat (map (tried store p) pre) @ tried store p h"
    by (simp add: eq calls_iteration dispatch_calls [OF pre])
qed

lemma callee_tried: "c \<in> set (tried store p h) \<Longrightarrow> callee c = h"
  by (auto simp: tried_def split: option.splits)

lemma callee_concat_tried: "c \<in> set (concat (map (tried store p) hs)) \<Longrightarrow> callee c \<in> set hs"
  by (induction hs) (auto dest: callee_tried)

lemma reported_dispatch:
  "set (reported (host s)) \<subseteq> set (reported (host (snd (dispatch store brm p hs s))))"
proof (induction hs arbitrary: s)
  case Nil
  show ?case by simp
next
  case (Cons h hs)
  show ?case
    using Cons.IH [of "snd (iteration store brm p h s)"]
    by (auto simp: dispatch_Cons reported_iteration)
qed

subsection \<open>send in terms of the loop\<close>

lemma result_send:
  "handlers d \<noteq> [] \<Longrightarrow>
   result (send store prepare brm d request) =
     (let D = dispatch store brm (prepare (merge_ydl (ydl d) request)) (rev (handlers d))
                (start (ydl d))
      in case fst D of
           Return response \<Rightarrow> Inr response
         | Raise e \<Rightarrow> Inl e
         | Continue \<Rightarrow> Inl (RequestError
             (err_str (reasons store (unsupported_errors (snd D)) (unexpected_errors (snd D))))))"
  by (simp add: send_def Let_def case_prod_beta)

lemma performed_send:
  "handlers d \<noteq> [] \<Longrightarrow>
   performed (send store prepare brm d request) =
     calls (snd (dispatch store brm (prepare (merge_ydl (ydl d) request)) (rev (handlers d))
                (start (ydl d))))"
  by (simp add: send_def Let_def case_prod_beta)

lemma host_send:
  "handlers d \<noteq> [] \<Longrightarrow>
   host_after (send store prepare brm d request) =
     host (snd (dispatch store brm (prepare (merge_ydl (ydl d) request)) (rev (handlers d))
                (start (ydl d))))"
  by (simp add: send_def Let_def case_prod_beta)

subsection \<open>The record of the operations performed\<close>

lemma except_calls:
  "(except brm name e (s\<lparr>calls := c\<rparr>) :: 'r flow \<times> loop_state)
     = (fst (except brm name e s :: 'r flow \<times> loop_state),
        (snd (except brm name e s :: 'r flow \<times> loop_state))\<lparr>calls := c\<rparr>)"
  by (cases e) simp_all

lemma iteration_calls:
  "iteration store brm p h (s\<lparr>calls := c\<rparr>)
     = (fst (iteration store brm p h s),
        (snd (iteration store brm p h s))\<lparr>calls := c @ tried store p h\<rparr>)"
  by (simp add: iteration_def tried_def Let_def except_calls split: option.splits sum.splits)

lemma dispatch_calls_any:
  "dispatch store brm p hs (s\<lparr>calls := c\<rparr>)
     = (fst (dispatch store brm p hs s),
        (snd (dispatch store brm p hs s))\<lparr>calls := c @ visited store p hs\<rparr>)"
proof (induction hs arbitrary: s c)
  case Nil
  show ?case by simp
next
  case (Cons h hs)
  show ?case
  proof (cases "verdict (attempt (store h) p) = Continue")
    case True
    then show ?thesis
      by (simp add: dispatch_Cons iteration_calls Cons.IH skipped_verdict)
  next
    case False
    then show ?thesis
      by (simp add: dispatch_Cons iteration_calls skipped_verdict)
  qed
qed

lemma unexpected_dispatch:
  "set (unexpected_errors s) \<subseteq> set (unexpected_errors (snd (dispatch store brm p hs s)))"
proof (induction hs arbitrary: s)
  case Nil
  show ?case by simp
next
  case (Cons h hs)
  show ?case
    using Cons.IH [of "snd (iteration store brm p h s)"]
    by (auto simp: dispatch_Cons unexpected_iteration)
qed

lemma unsupported_dispatch:
  "set (unsupported_errors s) \<subseteq> set (unsupported_errors (snd (dispatch store brm p hs s)))"
proof (induction hs arbitrary: s)
  case Nil
  show ?case by simp
next
  case (Cons h hs)
  show ?case
    using Cons.IH [of "snd (iteration store brm p h s)"]
    by (auto simp: dispatch_Cons unsupported_iteration)
qed

lemma outcome_calls: "outcome store (f, s\<lparr>calls := c\<rparr>) = outcome store (f, s)"
  by (simp add: outcome_def split: flow.splits)

lemma result_outcome:
  "handlers d \<noteq> [] \<Longrightarrow>
   result (send store prepare brm d request) =
     outcome store (dispatch store brm (prepare (merge_ydl (ydl d) request)) (rev (handlers d))
       (start (ydl d)))"
  by (simp add: result_send outcome_def Let_def)

lemma iteration_interrupt:
  assumes "can_handle (store h) p = None" and "handle (store h) p = Inl (NonException c m)"
  shows "iteration store brm p h s = (Raise (NonException c m), s
     \<lparr>host := to_debugtraffic (forwarding_message (RH_NAME (store h))) (host s),
      calls := calls s @ [CanHandle h, Handle h]\<rparr>)"
  using assms by (simp add: iteration_def Let_def)

subsection \<open>Handlers that behave alike\<close>

lemma dispatch_cong:
  "\<forall>g\<in>set hs. store' g = store g \<Longrightarrow>
   dispatch store' brm p hs s = dispatch store brm p hs s"
proof (induction hs arbitrary: s)
  case Nil
  show ?case by simp
next
  case (Cons h hs)
  have sh: "store' h = store h"
    using Cons.prems by simp
  have "iteration store' brm p h s = iteration store brm p h s"
    unfolding iteration_def sh ..
  with Cons show ?case
    by (simp add: dispatch.simps(2) split: prod.splits flow.splits)
qed

lemma err_handler_map_cong:
  "(\<And>x. RH_NAME (store' x) = RH_NAME (store x)) \<Longrightarrow>
   err_handler_map store' errs = err_handler_map store errs"
  by (simp add: err_handler_map_def)

lemma outcome_cong:
  assumes "\<And>x. RH_NAME (store' x) = RH_NAME (store x)"
  shows "outcome store' D = outcome store D"
  using err_handler_map_cong [of store' store, OF assms]
  by (simp add: outcome_def reasons_def split: flow.splits)

subsection \<open>Which handler answers\<close>

text \<open>
  C1, amended. Let \<open>h\<close> be a handler that accepts the prepared request and whose
  \<^verbatim>\<open>handle\<close> returns a response, and let every handler added after it (tried before it)
  decline or fault. Then \<^verbatim>\<open>send\<close> returns the response of \<open>h\<close>, the operations
  performed are those of the handlers tried before \<open>h\<close> and then \<^verbatim>\<open>can_handle\<close> and
  \<^verbatim>\<open>handle\<close> of \<open>h\<close>, and in a list without duplicates no operation of a handler
  added before \<open>h\<close> is performed.
\<close>

theorem first_success_wins:
  assumes "rev (handlers d) = pre @ h # post"
    and "\<forall>g\<in>set pre. skipped (store g) (prepare (merge_ydl (ydl d) request))"
    and "can_handle (store h) (prepare (merge_ydl (ydl d) request)) = None"
    and "handle (store h) (prepare (merge_ydl (ydl d) request)) = Inr response"
  shows "result (send store prepare brm d request) = Inr response
    \<and> performed (send store prepare brm d request)
        = concat (map (tried store (prepare (merge_ydl (ydl d) request))) pre)
          @ [CanHandle h, Handle h]
    \<and> (distinct (handlers d) \<longrightarrow>
         (\<forall>g\<in>set post. \<forall>c\<in>set (performed (send store prepare brm d request)). callee c \<noteq> g))"
proof -
  let ?p = "prepare (merge_ydl (ydl d) request)"
  have ne: "handlers d \<noteq> []"
    using assms(1) by auto
  have a: "attempt (store h) ?p = Inr response"
    using assms(3,4) by (simp add: attempt_def)
  then have v: "verdict (attempt (store h) ?p) \<noteq> Continue"
    by simp
  have t: "tried store ?p h = [CanHandle h, Handle h]"
    using assms(3) by (simp add: tried_def)
  have r: "result (send store prepare brm d request) = Inr response"
    using dispatch_stops(1) [OF assms(2) v, of brm post "start (ydl d)"] a
    by (simp add: result_send [OF ne] assms(1))
  have c: "performed (send store prepare brm d request)
        = concat (map (tried store ?p) pre) @ [CanHandle h, Handle h]"
    using dispatch_stops(2) [OF assms(2) v, of brm post "start (ydl d)"] t
    by (simp add: performed_send [OF ne] assms(1) start_def)
  have n: "\<forall>g\<in>set post. \<forall>c\<in>set (performed (send store prepare brm d request)). callee c \<noteq> g"
    if dist: "distinct (handlers d)"
  proof (intro ballI)
    fix g c
    assume g: "g \<in> set post" and "c \<in> set (performed (send store prepare brm d request))"
    then have "callee c \<in> set pre \<or> callee c = h"
      using callee_concat_tried [of c store ?p pre] by (auto simp: c)
    moreover have "distinct (pre @ h # post)"
      using dist assms(1) by (metis distinct_rev)
    ultimately show "callee c \<noteq> g"
      using g by auto
  qed
  show ?thesis
    using r c n by blast
qed

text \<open>
  C1, amended, with handlers A, B, D, G registered in this order: G declines, D faults,
  B answers, A is not consulted.
\<close>

theorem first_success_wins_witness:
  "rev (handlers (sample_director [0, 1, 3, 6])) = [6, 3] @ 1 # [0]
   \<and> skipped (sample_store 6) (merge_ydl sample_ydl sample_request)
   \<and> skipped (sample_store 3) (merge_ydl sample_ydl sample_request)
   \<and> distinct (handlers (sample_director [0, 1, 3, 6]))
   \<and> result (send sample_store (\<lambda>r. r) [] (sample_director [0, 1, 3, 6]) sample_request)
       = Inr ''response of B''
   \<and> performed (send sample_store (\<lambda>r. r) [] (sample_director [0, 1, 3, 6]) sample_request)
       = [CanHandle 6, CanHandle 3, Handle 3, CanHandle 1, Handle 1]
   \<and> 0 \<notin> set (map callee (performed
          (send sample_store (\<lambda>r. r) [] (sample_director [0, 1, 3, 6]) sample_request)))"
proof -
  let ?d = "sample_director [0, 1, 3, 6]"
  let ?p = "merge_ydl (ydl ?d) sample_request"
  have y: "ydl ?d = sample_ydl"
    by (simp add: sample_director_def)
  have 1: "rev (handlers ?d) = [6, 3] @ 1 # [0]"
    by (simp add: sample_director_def)
  have 2: "\<forall>g\<in>set [6, 3]. skipped (sample_store g) ?p"
    by (simp add: skipped_def attempt_def sample_store_def sample_rh_def)
  have 3: "can_handle (sample_store 1) ?p = None"
    by (simp add: sample_store_def sample_rh_def)
  have 4: "handle (sample_store 1) ?p = Inr ''response of B''"
    by (simp add: sample_store_def sample_rh_def)
  have 5: "distinct (handlers ?d)"
    by (simp add: sample_director_def)
  have t: "concat (map (tried sample_store ?p) [6, 3]) = [CanHandle 6, CanHandle 3, Handle 3]"
    by (simp add: tried_def sample_store_def sample_rh_def)
  note w = first_success_wins [of ?d "[6, 3]" 1 "[0]" sample_store "\<lambda>r. r" sample_request
      "''response of B''" "[]", OF 1 2 3 4]
  have r: "result (send sample_store (\<lambda>r. r) [] ?d sample_request) = Inr ''response of B''"
    using w by blast
  have c: "performed (send sample_store (\<lambda>r. r) [] ?d sample_request)
      = [CanHandle 6, CanHandle 3, Handle 3, CanHandle 1, Handle 1]"
    using w t by simp
  have "\<forall>g\<in>set [0]. \<forall>c\<in>set (performed (send sample_store (\<lambda>r. r) [] ?d sample_request)).
      callee c \<noteq> g"
    using w 5 by blast
  then have n: "0 \<notin> set (map callee (performed (send sample_store (\<lambda>r. r) [] ?d sample_request)))"
    by force
  show ?thesis
    using 1 2 [unfolded y] 5 r c n by simp
qed

text \<open>
  C1 as stated asks only for some handler that accepts and succeeds. With B registered
  before C, handler B accepts and succeeds and is the only one that does, yet \<^verbatim>\<open>send\<close>
  raises the \<^verbatim>\<open>RequestError\<close> of C, which is tried first, and B is never consulted.
\<close>

theorem first_success_wins_not_always:
  "handlers (sample_director [1, 2]) = [1, 2]
   \<and> can_handle (sample_store 1) (merge_ydl sample_ydl sample_request) = None
   \<and> handle (sample_store 1) (merge_ydl sample_ydl sample_request) = Inr ''response of B''
   \<and> handle (sample_store 2) (merge_ydl sample_ydl sample_request)
       = Inl (RequestError ''connection refused'')
   \<and> result (send sample_store (\<lambda>r. r) [] (sample_director [1, 2]) sample_request)
       = Inl (RequestError ''connection refused'')
   \<and> performed (send sample_store (\<lambda>r. r) [] (sample_director [1, 2]) sample_request)
       = [CanHandle 2, Handle 2]"
  by (simp add: send_def start_def iteration_def dispatch.simps(2) to_debugtraffic_def
      Let_def sample_defs)

text \<open>
  C2. Let \<open>h\<close> be a handler that the loop of \<^verbatim>\<open>send\<close> reaches: every handler before
  it in the reversed list declined or faulted. If \<^verbatim>\<open>can_handle\<close> of \<open>h\<close> accepts the
  prepared request and \<^verbatim>\<open>handle\<close> raises a \<^verbatim>\<open>RequestError\<close>, then \<^verbatim>\<open>send\<close> raises
  exactly that error, and the operations performed end with \<^verbatim>\<open>handle\<close> of \<open>h\<close>: no
  handler after \<open>h\<close> is tried, whatever it would have answered.
\<close>

theorem accepted_failure_is_final:
  assumes "rev (handlers d) = pre @ h # post"
    and "\<forall>g\<in>set pre. skipped (store g) (prepare (merge_ydl (ydl d) request))"
    and "can_handle (store h) (prepare (merge_ydl (ydl d) request)) = None"
    and "handle (store h) (prepare (merge_ydl (ydl d) request)) = Inl (RequestError m)"
  shows "result (send store prepare brm d request) = Inl (RequestError m)
    \<and> performed (send store prepare brm d request)
        = concat (map (tried store (prepare (merge_ydl (ydl d) request))) pre)
          @ [CanHandle h, Handle h]"
proof -
  let ?p = "prepare (merge_ydl (ydl d) request)"
  have ne: "handlers d \<noteq> []"
    using assms(1) by auto
  have a: "attempt (store h) ?p = Inl (RequestError m)"
    using assms(3,4) by (simp add: attempt_def)
  then have v: "verdict (attempt (store h) ?p) \<noteq> Continue"
    by simp
  have t: "tried store ?p h = [CanHandle h, Handle h]"
    using assms(3) by (simp add: tried_def)
  show ?thesis
    using dispatch_stops [OF assms(2) v, of brm post "start (ydl d)"] a t
    by (simp add: result_send [OF ne] performed_send [OF ne] assms(1) start_def)
qed

text \<open>
  C2 with handlers B, C, D, G registered in this order: G declines, D faults, C accepts
  and fails; B, which would have answered, is not tried.
\<close>

theorem accepted_failure_is_final_witness:
  "rev (handlers (sample_director [1, 2, 3, 6])) = [6, 3] @ 2 # [1]
   \<and> skipped (sample_store 6) (merge_ydl sample_ydl sample_request)
   \<and> skipped (sample_store 3) (merge_ydl sample_ydl sample_request)
   \<and> can_handle (sample_store 1) (merge_ydl sample_ydl sample_request) = None
   \<and> handle (sample_store 1) (merge_ydl sample_ydl sample_request) = Inr ''response of B''
   \<and> result (send sample_store (\<lambda>r. r) [] (sample_director [1, 2, 3, 6]) sample_request)
       = Inl (RequestError ''connection refused'')
   \<and> performed (send sample_store (\<lambda>r. r) [] (sample_director [1, 2, 3, 6]) sample_request)
       = [CanHandle 6, CanHandle 3, Handle 3, CanHandle 2, Handle 2]"
proof -
  let ?d = "sample_director [1, 2, 3, 6]"
  let ?p = "merge_ydl (ydl ?d) sample_request"
  have y: "ydl ?d = sample_ydl"
    by (simp add: sample_director_def)
  have 1: "rev (handlers ?d) = [6, 3] @ 2 # [1]"
    by (simp add: sample_director_def)
  have 2: "\<forall>g\<in>set [6, 3]. skipped (sample_store g) ?p"
    by (simp add: skipped_def attempt_def sample_store_def sample_rh_def)
  have 3: "can_handle (sample_store 2) ?p = None"
    by (simp add: sample_store_def sample_rh_def)
  have 4: "handle (sample_store 2) ?p = Inl (RequestError ''connection refused'')"
    by (simp add: sample_store_def sample_rh_def)
  have 5: "can_handle (sample_store 1) ?p = None"
    by (simp add: sample_store_def sample_rh_def)
  have 6: "handle (sample_store 1) ?p = Inr ''response of B''"
    by (simp add: sample_store_def sample_rh_def)
  have t: "concat (map (tried sample_store ?p) [6, 3]) = [CanHandle 6, CanHandle 3, Handle 3]"
    by (simp add: tried_def sample_store_def sample_rh_def)
  note w = accepted_failure_is_final [of ?d "[6, 3]" 2 "[1]" sample_store "\<lambda>r. r"
      sample_request "''connection refused''" "[]", OF 1 2 3 4]
  have r: "result (send sample_store (\<lambda>r. r) [] ?d sample_request)
      = Inl (RequestError ''connection refused'')"
    using w by blast
  have c: "performed (send sample_store (\<lambda>r. r) [] ?d sample_request)
      = [CanHandle 6, CanHandle 3, Handle 3, CanHandle 2, Handle 2]"
    using w t by simp
  show ?thesis
    using 1 2 [unfolded y] 5 [unfolded y] 6 [unfolded y] r c by simp
qed

text \<open>
  C3, amended. Let \<open>h\<close> be a handler that the loop reaches and that accepts the
  prepared request. If its \<^verbatim>\<open>handle\<close> raises an \<^verbatim>\<open>Exception\<close> that is neither a
  \<^verbatim>\<open>RequestError\<close> nor an \<^verbatim>\<open>UnsupportedRequest\<close>, \<^verbatim>\<open>send\<close> goes on with the
  handlers after \<open>h\<close>: its result, the host it leaves and the operations it performs
  are those of the loop over the remaining handlers, run in a state in which the
  exception is appended to the unexpected errors and a report with \<^verbatim>\<open>is_error=False\<close>
  is written; the exception is still recorded and the report still there when the loop
  ends. If \<^verbatim>\<open>handle\<close> raises what is not an \<^verbatim>\<open>Exception\<close>, \<^verbatim>\<open>send\<close> raises it:
  nothing is reported and no further handler is asked.
\<close>

theorem unexpected_exception_falls_through:
  assumes "rev (handlers d) = pre @ h # post"
    and "\<forall>g\<in>set pre. skipped (store g) (prepare (merge_ydl (ydl d) request))"
    and "can_handle (store h) (prepare (merge_ydl (ydl d) request)) = None"
  shows "(let p = prepare (merge_ydl (ydl d) request);
              s = snd (dispatch store brm p pre (start (ydl d)));
              t = s\<lparr>unexpected_errors := unexpected_errors s @ [OtherException c m],
                    host := report_error
                      (unexpected_message brm (RH_NAME (store h)) (OtherException c m)) False
                      (to_debugtraffic (forwarding_message (RH_NAME (store h))) (host s))\<rparr>;
              D = dispatch store brm p post t
          in (handle (store h) p = Inl (OtherException c m) \<longrightarrow>
                result (send store prepare brm d request) = outcome store D
              \<and> host_after (send store prepare brm d request) = host (snd D)
              \<and> performed (send store prepare brm d request)
                  = concat (map (tried store p) pre) @ [CanHandle h, Handle h]
                    @ visited store p post
              \<and> OtherException c m \<in> set (unexpected_errors (snd D))
              \<and> (unexpected_message brm (RH_NAME (store h)) (OtherException c m), False)
                  \<in> set (reported (host (snd D))))
           \<and> (handle (store h) p = Inl (NonException c m) \<longrightarrow>
                result (send store prepare brm d request) = Inl (NonException c m)
              \<and> host_after (send store prepare brm d request)
                  = to_debugtraffic (forwarding_message (RH_NAME (store h))) (host s)
              \<and> performed (send store prepare brm d request)
                  = concat (map (tried store p) pre) @ [CanHandle h, Handle h]))"
proof -
  let ?p = "prepare (merge_ydl (ydl d) request)"
  let ?s = "snd (dispatch store brm ?p pre (start (ydl d)))"
  let ?t = "?s\<lparr>unexpected_errors := unexpected_errors ?s @ [OtherException c m],
      host := report_error (unexpected_message brm (RH_NAME (store h)) (OtherException c m)) False
               (to_debugtraffic (forwarding_message (RH_NAME (store h))) (host ?s))\<rparr>"
  let ?D = "dispatch store brm ?p post ?t"
  let ?R = "dispatch store brm ?p (rev (handlers d)) (start (ydl d))"
  have ne: "handlers d \<noteq> []"
    using assms(1) by auto
  have cs: "calls ?s = concat (map (tried store ?p) pre)"
    by (simp add: dispatch_calls [OF assms(2)] start_def)
  have "fst (dispatch store brm ?p pre (start (ydl d))) = Continue"
    using assms(2) by (simp add: dispatch_exhausts_iff)
  then have reach: "?R = dispatch store brm ?p (h # post) ?s"
    by (simp add: assms(1) dispatch_append)
  have fault: "result (send store prepare brm d request) = outcome store ?D
      \<and> host_after (send store prepare brm d request) = host (snd ?D)
      \<and> performed (send store prepare brm d request)
          = concat (map (tried store ?p) pre) @ [CanHandle h, Handle h] @ visited store ?p post
      \<and> OtherException c m \<in> set (unexpected_errors (snd ?D))
      \<and> (unexpected_message brm (RH_NAME (store h)) (OtherException c m), False)
          \<in> set (reported (host (snd ?D)))"
    if e: "handle (store h) ?p = Inl (OtherException c m)"
  proof -
    have "dispatch store brm ?p (h # post) ?s
        = dispatch store brm ?p post (?t\<lparr>calls := calls ?s @ [CanHandle h, Handle h]\<rparr>)"
      using assms(3) e by (simp add: dispatch_Cons attempt_def iteration_fault)
    then have eq: "?R = (fst ?D, (snd ?D)\<lparr>calls := (calls ?s @ [CanHandle h, Handle h])
        @ visited store ?p post\<rparr>)"
      by (simp only: reach dispatch_calls_any)
    have 1: "result (send store prepare brm d request) = outcome store ?D"
      by (simp add: result_outcome [OF ne] eq outcome_calls)
    have 2: "host_after (send store prepare brm d request) = host (snd ?D)"
      by (simp add: host_send [OF ne] eq)
    have 3: "performed (send store prepare brm d request)
        = concat (map (tried store ?p) pre) @ [CanHandle h, Handle h] @ visited store ?p post"
      by (simp add: performed_send [OF ne] eq cs)
    have "OtherException c m \<in> set (unexpected_errors ?t)"
      by simp
    then have 4: "OtherException c m \<in> set (unexpected_errors (snd ?D))"
      using unexpected_dispatch [of ?t store brm ?p post] by blast
    have "(unexpected_message brm (RH_NAME (store h)) (OtherException c m), False)
        \<in> set (reported (host ?t))"
      by (simp add: report_error_def)
    then have 5: "(unexpected_message brm (RH_NAME (store h)) (OtherException c m), False)
        \<in> set (reported (host (snd ?D)))"
      using reported_dispatch [of ?t store brm ?p post] by blast
    show ?thesis
      by (intro conjI 1 2 3 4 5)
  qed
  have interrupt: "result (send store prepare brm d request) = Inl (NonException c m)
      \<and> host_after (send store prepare brm d request)
          = to_debugtraffic (forwarding_message (RH_NAME (store h))) (host ?s)
      \<and> performed (send store prepare brm d request)
          = concat (map (tried store ?p) pre) @ [CanHandle h, Handle h]"
    if e: "handle (store h) ?p = Inl (NonException c m)"
  proof -
    have eq: "?R = (Raise (NonException c m), ?s
        \<lparr>host := to_debugtraffic (forwarding_message (RH_NAME (store h))) (host ?s),
         calls := calls ?s @ [CanHandle h, Handle h]\<rparr>)"
      using assms(3) e
      by (simp add: reach dispatch_Cons attempt_def iteration_interrupt)
    show ?thesis
      by (simp add: result_outcome [OF ne] host_send [OF ne] performed_send [OF ne] eq
          outcome_def cs)
  qed
  show ?thesis
    unfolding Let_def by (rule conjI; rule impI; (erule fault | erule interrupt))
qed

text \<open>
  C3, amended. With handlers B, D, G registered in this order, G declines, D raises a
  \<^verbatim>\<open>ValueError\<close>, which is reported, and B is asked and answers. With A, D: D faults
  and A declines, and the message counts one unexpected error. With B, E: the
  \<^verbatim>\<open>KeyboardInterrupt\<close> of E leaves \<^verbatim>\<open>send\<close> and B is not asked.
\<close>

theorem unexpected_exception_falls_through_witness:
  "rev (handlers (sample_director [1, 3, 6])) = [6] @ 3 # [1]
   \<and> skipped (sample_store 6) (merge_ydl sample_ydl sample_request)
   \<and> handle (sample_store 3) (merge_ydl sample_ydl sample_request)
       = Inl (OtherException ''ValueError'' ''bad state'')
   \<and> result (send sample_store (\<lambda>r. r) ''; please report'' (sample_director [1, 3, 6])
        sample_request) = Inr ''response of B''
   \<and> performed (send sample_store (\<lambda>r. r) ''; please report'' (sample_director [1, 3, 6])
        sample_request) = [CanHandle 6, CanHandle 3, Handle 3, CanHandle 1, Handle 1]
   \<and> (unexpected_message ''; please report'' ''D'' (OtherException ''ValueError'' ''bad state''),
        False)
       \<in> set (reported (host_after
            (send sample_store (\<lambda>r. r) ''; please report'' (sample_director [1, 3, 6])
               sample_request)))
   \<and> result (send sample_store (\<lambda>r. r) ''; please report'' (sample_director [0, 3])
        sample_request)
       = Inl (RequestError
           ''Unable to handle request, possible reason(s): unsupported url scheme (A), 1 unexpected error(s)'')
   \<and> handle (sample_store 4) (merge_ydl sample_ydl sample_request)
       = Inl (NonException ''KeyboardInterrupt'' [])
   \<and> result (send sample_store (\<lambda>r. r) ''; please report'' (sample_director [1, 4])
        sample_request) = Inl (NonException ''KeyboardInterrupt'' [])
   \<and> performed (send sample_store (\<lambda>r. r) ''; please report'' (sample_director [1, 4])
        sample_request) = [CanHandle 4, Handle 4]"
proof -
  let ?brm = "''; please report''"
  let ?y = "\<lambda>hs. merge_ydl (ydl (sample_director hs)) sample_request"
  have y: "\<And>hs. ydl (sample_director hs) = sample_ydl"
    by (simp add: sample_director_def)
  have n: "RH_NAME (sample_store 3) = ''D''"
    by (simp add: sample_store_def sample_rh_def)
  have c3: "\<And>q. can_handle (sample_store 3) q = None"
    and h3: "\<And>q. handle (sample_store 3) q = Inl (OtherException ''ValueError'' ''bad state'')"
    and c4: "\<And>q. can_handle (sample_store 4) q = None"
    and h4: "\<And>q. handle (sample_store 4) q = Inl (NonException ''KeyboardInterrupt'' [])"
    and s6: "\<And>q. skipped (sample_store 6) q"
    by (simp_all add: skipped_def attempt_def sample_store_def sample_rh_def)

  have a1: "rev (handlers (sample_director [1, 3, 6])) = [6] @ 3 # [1]"
    by (simp add: sample_director_def)
  have a2: "\<forall>g\<in>set [6]. skipped (sample_store g) (?y [1, 3, 6])"
    by (simp add: s6)
  note w1 = unexpected_exception_falls_through [where d = "sample_director [1, 3, 6]"
      and pre = "[6]" and h = 3 and post = "[1]" and store = sample_store
      and prepare = "\<lambda>r. r" and request = sample_request
      and c = "''ValueError''" and m = "''bad state''" and brm = ?brm,
      OF a1 a2 c3, unfolded Let_def, THEN conjunct1, THEN mp, OF h3]
  have r1: "result (send sample_store (\<lambda>r. r) ?brm (sample_director [1, 3, 6]) sample_request)
      = Inr ''response of B''"
    using w1
    by (simp add: outcome_def dispatch.simps(2) iteration_def Let_def sample_store_def
        sample_rh_def)
  have p1: "performed (send sample_store (\<lambda>r. r) ?brm (sample_director [1, 3, 6]) sample_request)
      = [CanHandle 6, CanHandle 3, Handle 3, CanHandle 1, Handle 1]"
    using w1 by (simp add: tried_def sample_store_def sample_rh_def)
  have d1: "(unexpected_message ?brm ''D'' (OtherException ''ValueError'' ''bad state''), False)
      \<in> set (reported (host_after
           (send sample_store (\<lambda>r. r) ?brm (sample_director [1, 3, 6]) sample_request)))"
    using w1 [unfolded n] by simp

  have b1: "rev (handlers (sample_director [0, 3])) = [] @ 3 # [0]"
    by (simp add: sample_director_def)
  have b2: "\<forall>g\<in>set []. skipped (sample_store g) (?y [0, 3])"
    by simp
  note w3 = unexpected_exception_falls_through [where d = "sample_director [0, 3]"
      and pre = "[]" and h = 3 and post = "[0]" and store = sample_store
      and prepare = "\<lambda>r. r" and request = sample_request
      and c = "''ValueError''" and m = "''bad state''" and brm = ?brm,
      OF b1 b2 c3, unfolded Let_def, THEN conjunct1, THEN mp, OF h3]
  have r3: "result (send sample_store (\<lambda>r. r) ?brm (sample_director [0, 3]) sample_request)
      = Inl (RequestError
          ''Unable to handle request, possible reason(s): unsupported url scheme (A), 1 unexpected error(s)'')"
    using w3
    by (simp add: outcome_def dispatch.simps(2) iteration_def Let_def sample_store_def
        sample_rh_def start_def to_debugtraffic_def report_error_def err_str_def reasons_def
        err_handler_map_def reason_def str_nat.simps digit_def)

  have e1: "rev (handlers (sample_director [1, 4])) = [] @ 4 # [1]"
    by (simp add: sample_director_def)
  have e2: "\<forall>g\<in>set []. skipped (sample_store g) (?y [1, 4])"
    by simp
  note w2 = unexpected_exception_falls_through [where d = "sample_director [1, 4]"
      and pre = "[]" and h = 4 and post = "[1]" and store = sample_store
      and prepare = "\<lambda>r. r" and request = sample_request
      and c = "''KeyboardInterrupt''" and m = "[]" and brm = ?brm,
      OF e1 e2 c4, unfolded Let_def, THEN conjunct2, THEN mp, OF h4]
  have r2: "result (send sample_store (\<lambda>r. r) ?brm (sample_director [1, 4]) sample_request)
      = Inl (NonException ''KeyboardInterrupt'' [])"
    using w2 by simp
  have p2: "performed (send sample_store (\<lambda>r. r) ?brm (sample_director [1, 4]) sample_request)
      = [CanHandle 4, Handle 4]"
    using w2 by simp
  show ?thesis
    by (intro conjI a1 s6 h3 r1 p1 d1 r3 h4 r2 p2)
qed

text \<open>
  C3 as stated speaks of anything other than a \<^verbatim>\<open>RequestError\<close>. The second
  \<^verbatim>\<open>except\<close> clause catches \<^verbatim>\<open>Exception\<close> only: a \<^verbatim>\<open>KeyboardInterrupt\<close> raised in
  \<^verbatim>\<open>handle\<close> of E leaves \<^verbatim>\<open>send\<close>. Nothing is reported and B, the next handler, is
  not tried.
\<close>

theorem interrupt_leaves_send:
  "handlers (sample_director [1, 4]) = [1, 4]
   \<and> can_handle (sample_store 4) (merge_ydl sample_ydl sample_request) = None
   \<and> handle (sample_store 4) (merge_ydl sample_ydl sample_request)
       = Inl (NonException ''KeyboardInterrupt'' [])
   \<and> result (send sample_store (\<lambda>r. r) [] (sample_director [1, 4]) sample_request)
       = Inl (NonException ''KeyboardInterrupt'' [])
   \<and> reported (host_after (send sample_store (\<lambda>r. r) [] (sample_director [1, 4]) sample_request))
       = []
   \<and> performed (send sample_store (\<lambda>r. r) [] (sample_director [1, 4]) sample_request)
       = [CanHandle 4, Handle 4]"
  by (simp add: send_def start_def iteration_def dispatch.simps(2) to_debugtraffic_def
      Let_def sample_defs)

text \<open>
  C10. Let \<open>h\<close> be a handler that the loop reaches and that accepts the prepared
  request. If its \<^verbatim>\<open>handle\<close> raises \<^verbatim>\<open>UnsupportedRequest\<close>, the pass through the loop
  body ends in \<^verbatim>\<open>continue\<close> with the reason appended to the unsupported errors and the
  debug message written: the very state that the same handler yields when it raises
  the same exception from \<^verbatim>\<open>can_handle\<close>, but for the record of the operations
  performed. \<^verbatim>\<open>send\<close> goes on with the handlers after \<open>h\<close>: its result, the host it
  leaves and the operations it performs are those of the loop over the remaining
  handlers, run in this state, and the reason is still recorded when the loop ends. In
  a handler list without duplicates, \<^verbatim>\<open>send\<close> with the handler declining from
  \<^verbatim>\<open>can_handle\<close> instead has the same result, leaves the same host and performs the
  same operations but for \<^verbatim>\<open>handle\<close> of \<open>h\<close>.
\<close>

theorem unsupported_from_handle_is_declination:
  assumes "rev (handlers d) = pre @ h # post"
    and "\<forall>g\<in>set pre. skipped (store g) (prepare (merge_ydl (ydl d) request))"
    and "can_handle (store h) (prepare (merge_ydl (ydl d) request)) = None"
    and "handle (store h) (prepare (merge_ydl (ydl d) request)) = Inl (UnsupportedRequest m r)"
  shows "(let p = prepare (merge_ydl (ydl d) request);
              s = snd (dispatch store brm p pre (start (ydl d)));
              t = s\<lparr>unsupported_errors := unsupported_errors s @ [(m, r)],
                    host := to_debugtraffic
                      (cannot_handle_message (RH_NAME (store h)) (UnsupportedRequest m r))
                      (to_debugtraffic (forwarding_message (RH_NAME (store h))) (host s))\<rparr>;
              D = dispatch store brm p post t;
              store' = store(h := (store h)\<lparr>can_handle := (\<lambda>q. Some (UnsupportedRequest m r))\<rparr>)
          in iteration store brm p h s = (Continue, t\<lparr>calls := calls s @ [CanHandle h, Handle h]\<rparr>)
           \<and> iteration store' brm p h s = (Continue, t\<lparr>calls := calls s @ [CanHandle h]\<rparr>)
           \<and> result (send store prepare brm d request) = outcome store D
           \<and> host_after (send store prepare brm d request) = host (snd D)
           \<and> performed (send store prepare brm d request)
               = concat (map (tried store p) pre) @ [CanHandle h, Handle h] @ visited store p post
           \<and> (m, r) \<in> set (unsupported_errors (snd D))
           \<and> (distinct (handlers d) \<longrightarrow>
                result (send store' prepare brm d request)
                  = result (send store prepare brm d request)
              \<and> host_after (send store' prepare brm d request)
                  = host_after (send store prepare brm d request)
              \<and> performed (send store' prepare brm d request)
                  = concat (map (tried store p) pre) @ [CanHandle h] @ visited store p post))"
proof -
  let ?p = "prepare (merge_ydl (ydl d) request)"
  let ?s = "snd (dispatch store brm ?p pre (start (ydl d)))"
  let ?t = "?s\<lparr>unsupported_errors := unsupported_errors ?s @ [(m, r)],
      host := to_debugtraffic
        (cannot_handle_message (RH_NAME (store h)) (UnsupportedRequest m r))
        (to_debugtraffic (forwarding_message (RH_NAME (store h))) (host ?s))\<rparr>"
  let ?D = "dispatch store brm ?p post ?t"
  let ?store' = "store(h := (store h)\<lparr>can_handle := (\<lambda>q. Some (UnsupportedRequest m r))\<rparr>)"
  let ?R = "dispatch store brm ?p (rev (handlers d)) (start (ydl d))"
  let ?R' = "dispatch ?store' brm ?p (rev (handlers d)) (start (ydl d))"
  have ne: "handlers d \<noteq> []"
    using assms(1) by auto
  have cs: "calls ?s = concat (map (tried store ?p) pre)"
    by (simp add: dispatch_calls [OF assms(2)] start_def)
  have i: "iteration store brm ?p h ?s
      = (Continue, ?t\<lparr>calls := calls ?s @ [CanHandle h, Handle h]\<rparr>)"
    using assms(3,4) by (simp add: iteration_def Let_def)
  have j: "iteration ?store' brm ?p h ?s = (Continue, ?t\<lparr>calls := calls ?s @ [CanHandle h]\<rparr>)"
    by (simp add: iteration_def Let_def)
  have "fst (dispatch store brm ?p pre (start (ydl d))) = Continue"
    using assms(2) by (simp add: dispatch_exhausts_iff)
  then have "?R = dispatch store brm ?p (h # post) ?s"
    by (simp add: assms(1) dispatch_append)
  also have "\<dots> = dispatch store brm ?p post (?t\<lparr>calls := calls ?s @ [CanHandle h, Handle h]\<rparr>)"
    using assms(3,4) by (simp add: dispatch_Cons attempt_def i)
  finally have eq: "?R = (fst ?D, (snd ?D)\<lparr>calls := (calls ?s @ [CanHandle h, Handle h])
      @ visited store ?p post\<rparr>)"
    by (simp only: dispatch_calls_any)
  have 1: "result (send store prepare brm d request) = outcome store ?D"
    by (simp add: result_outcome [OF ne] eq outcome_calls)
  have 2: "host_after (send store prepare brm d request) = host (snd ?D)"
    by (simp add: host_send [OF ne] eq)
  have 3: "performed (send store prepare brm d request)
      = concat (map (tried store ?p) pre) @ [CanHandle h, Handle h] @ visited store ?p post"
    by (simp add: performed_send [OF ne] eq cs)
  have "(m, r) \<in> set (unsupported_errors ?t)"
    by simp
  then have 4: "(m, r) \<in> set (unsupported_errors (snd ?D))"
    using unsupported_dispatch [of ?t store brm ?p post] by blast
  have 5: "result (send ?store' prepare brm d request)
        = result (send store prepare brm d request)
      \<and> host_after (send ?store' prepare brm d request)
        = host_after (send store prepare brm d request)
      \<and> performed (send ?store' prepare brm d request)
        = concat (map (tried store ?p) pre) @ [CanHandle h] @ visited store ?p post"
    if dist: "distinct (handlers d)"
  proof -
    have "distinct (pre @ h # post)"
      using dist assms(1) by (metis distinct_rev)
    then have hpre: "h \<notin> set pre" and hpost: "h \<notin> set post"
      by auto
    have apre: "\<forall>g\<in>set pre. ?store' g = store g"
      using hpre by auto
    have apost: "\<forall>g\<in>set post. ?store' g = store g"
      using hpost by auto
    have names: "\<And>x. RH_NAME (?store' x) = RH_NAME (store x)"
      by simp
    have spre: "dispatch ?store' brm ?p pre (start (ydl d))
        = dispatch store brm ?p pre (start (ydl d))"
      by (rule dispatch_cong [OF apre])
    then have "fst (dispatch ?store' brm ?p pre (start (ydl d))) = Continue"
      using assms(2) by (simp add: dispatch_exhausts_iff)
    then have "?R' = dispatch ?store' brm ?p (h # post) ?s"
      by (simp add: assms(1) dispatch_append spre)
    also have "\<dots> = dispatch ?store' brm ?p post (?t\<lparr>calls := calls ?s @ [CanHandle h]\<rparr>)"
      by (simp add: dispatch_Cons attempt_def j)
    also have "\<dots> = dispatch store brm ?p post (?t\<lparr>calls := calls ?s @ [CanHandle h]\<rparr>)"
      by (rule dispatch_cong [OF apost])
    finally have eq': "?R' = (fst ?D, (snd ?D)\<lparr>calls := (calls ?s @ [CanHandle h])
        @ visited store ?p post\<rparr>)"
      by (simp only: dispatch_calls_any)
    have "result (send ?store' prepare brm d request) = outcome ?store' ?D"
      by (simp add: result_outcome [OF ne] eq' outcome_calls)
    also have "\<dots> = outcome store ?D"
      by (rule outcome_cong [OF names])
    finally have a: "result (send ?store' prepare brm d request)
        = result (send store prepare brm d request)"
      by (simp only: 1)
    have b: "host_after (send ?store' prepare brm d request)
        = host_after (send store prepare brm d request)"
      by (simp add: host_send [OF ne] eq eq')
    have c: "performed (send ?store' prepare brm d request)
        = concat (map (tried store ?p) pre) @ [CanHandle h] @ visited store ?p post"
      by (simp add: performed_send [OF ne] eq' cs)
    show ?thesis
      by (intro conjI a b c)
  qed
  show ?thesis
    unfolding Let_def
    by (intro conjI i j 1 2 3 4) (rule impI, erule 5)
qed

text \<open>
  C10. With handlers B, F, G registered in this order, G declines, F accepts and then
  declines in \<^verbatim>\<open>handle\<close>, and B is asked and answers; with F declining from
  \<^verbatim>\<open>can_handle\<close> the result is the same. With A, F: both decline, and the message
  lists the reason of F like that of A.
\<close>

theorem unsupported_from_handle_is_declination_witness:
  "rev (handlers (sample_director [1, 5, 6])) = [6] @ 5 # [1]
   \<and> skipped (sample_store 6) (merge_ydl sample_ydl sample_request)
   \<and> can_handle (sample_store 5) (merge_ydl sample_ydl sample_request) = None
   \<and> handle (sample_store 5) (merge_ydl sample_ydl sample_request)
       = Inl (UnsupportedRequest ''unsupported proxy type'' 5)
   \<and> distinct (handlers (sample_director [1, 5, 6]))
   \<and> result (send sample_store (\<lambda>r. r) [] (sample_director [1, 5, 6]) sample_request)
       = Inr ''response of B''
   \<and> performed (send sample_store (\<lambda>r. r) [] (sample_director [1, 5, 6]) sample_request)
       = [CanHandle 6, CanHandle 5, Handle 5, CanHandle 1, Handle 1]
   \<and> result (send
         (sample_store(5 := (sample_store 5)
            \<lparr>can_handle := (\<lambda>q. Some (UnsupportedRequest ''unsupported proxy type'' 5))\<rparr>))
         (\<lambda>r. r) [] (sample_director [1, 5, 6]) sample_request)
       = Inr ''response of B''
   \<and> performed (send
         (sample_store(5 := (sample_store 5)
            \<lparr>can_handle := (\<lambda>q. Some (UnsupportedRequest ''unsupported proxy type'' 5))\<rparr>))
         (\<lambda>r. r) [] (sample_director [1, 5, 6]) sample_request)
       = [CanHandle 6, CanHandle 5, CanHandle 1, Handle 1]
   \<and> result (send sample_store (\<lambda>r. r) [] (sample_director [0, 5]) sample_request)
       = Inl (RequestError
           ''Unable to handle request, possible reason(s): unsupported proxy type (F), unsupported url scheme (A)'')"
proof -
  let ?y = "\<lambda>hs. merge_ydl (ydl (sample_director hs)) sample_request"
  let ?m = "''unsupported proxy type''"
  let ?store' = "sample_store(5 := (sample_store 5)
      \<lparr>can_handle := (\<lambda>q. Some (UnsupportedRequest ?m 5))\<rparr>)"
  have c5: "\<And>q. can_handle (sample_store 5) q = None"
    and h5: "\<And>q. handle (sample_store 5) q = Inl (UnsupportedRequest ?m 5)"
    and s6: "\<And>q. skipped (sample_store 6) q"
    by (simp_all add: skipped_def attempt_def sample_store_def sample_rh_def)

  have a1: "rev (handlers (sample_director [1, 5, 6])) = [6] @ 5 # [1]"
    by (simp add: sample_director_def)
  have a2: "\<forall>g\<in>set [6]. skipped (sample_store g) (?y [1, 5, 6])"
    by (simp add: s6)
  have a3: "distinct (handlers (sample_director [1, 5, 6]))"
    by (simp add: sample_director_def)
  note w1 = unsupported_from_handle_is_declination [where d = "sample_director [1, 5, 6]"
      and pre = "[6]" and h = 5 and post = "[1]" and store = sample_store
      and prepare = "\<lambda>r. r" and request = sample_request and m = ?m and r = 5
      and brm = "[]", OF a1 a2 c5 h5, unfolded Let_def]
  note w1r = w1 [THEN conjunct2, THEN conjunct2, THEN conjunct1]
  note w1p = w1 [THEN conjunct2, THEN conjunct2, THEN conjunct2, THEN conjunct2, THEN conjunct1]
  note w1d = w1 [THEN conjunct2, THEN conjunct2, THEN conjunct2, THEN conjunct2,
      THEN conjunct2, THEN conjunct2, THEN mp, OF a3]
  have r1: "result (send sample_store (\<lambda>r. r) [] (sample_director [1, 5, 6]) sample_request)
      = Inr ''response of B''"
    using w1r
    by (simp add: outcome_def dispatch.simps(2) iteration_def Let_def sample_store_def
        sample_rh_def)
  have p1: "performed (send sample_store (\<lambda>r. r) [] (sample_director [1, 5, 6]) sample_request)
      = [CanHandle 6, CanHandle 5, Handle 5, CanHandle 1, Handle 1]"
    using w1p by (simp add: tried_def sample_store_def sample_rh_def)
  have r1': "result (send ?store' (\<lambda>r. r) [] (sample_director [1, 5, 6]) sample_request)
      = Inr ''response of B''"
    using w1d [THEN conjunct1] by (simp only: r1)
  have p1': "performed (send ?store' (\<lambda>r. r) [] (sample_director [1, 5, 6]) sample_request)
      = [CanHandle 6, CanHandle 5, CanHandle 1, Handle 1]"
    using w1d [THEN conjunct2, THEN conjunct2]
    by (simp add: tried_def sample_store_def sample_rh_def)

  have b1: "rev (handlers (sample_director [0, 5])) = [] @ 5 # [0]"
    by (simp add: sample_director_def)
  have b2: "\<forall>g\<in>set []. skipped (sample_store g) (?y [0, 5])"
    by simp
  note w2 = unsupported_from_handle_is_declination [where d = "sample_director [0, 5]"
      and pre = "[]" and h = 5 and post = "[0]" and store = sample_store
      and prepare = "\<lambda>r. r" and request = sample_request and m = ?m and r = 5
      and brm = "[]", OF b1 b2 c5 h5, unfolded Let_def]
  have r2: "result (send sample_store (\<lambda>r. r) [] (sample_director [0, 5]) sample_request)
      = Inl (RequestError
          ''Unable to handle request, possible reason(s): unsupported proxy type (F), unsupported url scheme (A)'')"
    using w2 [THEN conjunct2, THEN conjunct2, THEN conjunct1]
    by (simp add: outcome_def dispatch.simps(2) iteration_def Let_def sample_store_def
        sample_rh_def start_def to_debugtraffic_def err_str_def reasons_def
        err_handler_map_def reason_def)
  show ?thesis
    by (intro conjI a1 s6 c5 h5 a3 r1 p1 r1' p1' r2)
qed

subsection \<open>The report when no handler answers\<close>

lemma setdefault_append_map:
  "distinct ks \<Longrightarrow>
   setdefault_append k v (map (\<lambda>x. (x, F x)) ks) =
     (if k \<in> set ks
      then map (\<lambda>x. (x, if x = k then F x @ [v] else F x)) ks
      else map (\<lambda>x. (x, F x)) ks @ [(k, [v])])"
proof (induction ks)
  case Nil
  show ?case by simp
next
  case (Cons a ks)
  show ?case
  proof (cases "a = k")
    case True
    with Cons.prems have "k \<notin> set ks" by simp
    then have "map (\<lambda>x. (x, if x = k then F x @ [v] else F x)) ks = map (\<lambda>x. (x, F x)) ks"
      by (intro map_cong) auto
    with True show ?thesis by simp
  next
    case False
    with Cons show ?thesis by simp
  qed
qed

lemma fold_setdefault_append:
  "fold (\<lambda>(k, v). setdefault_append k v) es [] =
     map (\<lambda>k. (k, map snd (filter (\<lambda>e. fst e = k) es))) (rev (remdups (rev (map fst es))))"
proof (induction es rule: rev_induct)
  case Nil
  show ?case by simp
next
  case (snoc e es)
  obtain k v where e: "e = (k, v)" by (cases e)
  let ?ks = "rev (remdups (rev (map fst es)))"
  let ?F = "\<lambda>k. map snd (filter (\<lambda>e. fst e = k) es)"
  have d: "distinct ?ks" by simp
  have s: "set ?ks = fst ` set es" by simp
  have "fold (\<lambda>(k, v). setdefault_append k v) (es @ [e]) []
      = setdefault_append k v (map (\<lambda>x. (x, ?F x)) ?ks)"
    by (simp add: e snoc.IH)
  also have "\<dots> = (if k \<in> set ?ks
      then map (\<lambda>x. (x, if x = k then ?F x @ [v] else ?F x)) ?ks
      else map (\<lambda>x. (x, ?F x)) ?ks @ [(k, [v])])"
    by (rule setdefault_append_map [OF d])
  also have "\<dots> = map (\<lambda>x. (x, map snd (filter (\<lambda>e. fst e = x) (es @ [e]))))
      (rev (remdups (rev (map fst (es @ [e])))))"
  proof (cases "k \<in> fst ` set es")
    case True
    then show ?thesis by (auto simp: e)
  next
    case False
    then have "?F k = []"
      by (auto simp: filter_empty_conv)
    with False show ?thesis by (auto simp: e)
  qed
  finally show ?case .
qed

lemma err_handler_map_grouped: "err_handler_map store errs = grouped store errs"
proof -
  have "err_handler_map store errs
      = fold (\<lambda>(k, v). setdefault_append k v) (map (\<lambda>e. (fst e, RH_NAME (store (snd e)))) errs) []"
    by (simp add: err_handler_map_def fold_map comp_def case_prod_unfold)
  then show ?thesis
    by (simp add: fold_setdefault_append grouped_def comp_def filter_map)
qed

lemma declined_by:
  "\<forall>g\<in>set hs. \<forall>e\<in>set (declination (attempt (store g) p)). snd e = g \<Longrightarrow>
   map snd (filter (\<lambda>e. fst e = m) (concat (map (\<lambda>g. declination (attempt (store g) p)) hs)))
     = filter (\<lambda>g. map fst (declination (attempt (store g) p)) = [m]) hs"
proof (induction hs)
  case Nil
  show ?case by simp
next
  case (Cons h hs)
  then show ?case
    by (cases "attempt (store h) p" rule: declination.cases) auto
qed

lemma str_join_joined: "str_join sep xs = joined sep xs"
  by (induction sep xs rule: str_join.induct) (simp_all add: joined_def)

lemma reason_joined: "reason e = fst e @ '' ('' @ joined '', '' (snd e) @ '')''"
  by (simp add: reason_def case_prod_unfold str_join_joined)

lemma reason_fun: "reason = (\<lambda>e. fst e @ '' ('' @ joined '', '' (snd e) @ '')'')"
  by (rule ext) (rule reason_joined)

lemma err_str_joined:
  "rs \<noteq> [] \<Longrightarrow>
   err_str rs = ''Unable to handle request, possible reason(s): '' @ joined '', '' rs"
  by (simp add: err_str_def str_join_joined)

lemma digit_facts:
  assumes "n < 10"
  shows "digit_value (digit n) = n"
    and "digit n \<in> set ''0123456789''"
    and "digit n = CHR ''0'' \<longleftrightarrow> n = 0"
proof -
  have "n \<in> {0, 1, 2, 3, 4, 5, 6, 7, 8, 9}"
    using assms by auto
  then show "digit_value (digit n) = n"
    and "digit n \<in> set ''0123456789''"
    and "digit n = CHR ''0'' \<longleftrightarrow> n = 0"
    by (auto simp: digit_def digit_value_def)
qed

lemma numeral_value_snoc:
  "numeral_value (ds @ [c]) = 10 * numeral_value ds + digit_value c"
  by (simp add: numeral_value_def)

lemma is_decimal_str_nat: "is_decimal (str_nat n) n"
proof (induction n rule: str_nat.induct)
  case (1 n)
  show ?case
  proof (cases "n < 10")
    case True
    then have "str_nat n = [digit n]"
      by (simp add: str_nat.simps)
    with digit_facts(1,2) [OF True] show ?thesis
      by (simp add: is_decimal_def numeral_value_def)
  next
    case False
    let ?xs = "str_nat (n div 10)"
    have s: "str_nat n = ?xs @ [digit (n mod 10)]"
      using False by (simp add: str_nat.simps)
    have ih: "is_decimal ?xs (n div 10)"
      using False by (rule "1.IH")
    have m: "n mod 10 < 10"
      by simp
    have ne: "?xs \<noteq> []" and dg: "set ?xs \<subseteq> set ''0123456789''"
      and v: "numeral_value ?xs = n div 10"
      using ih by (simp_all add: is_decimal_def)
    have "hd ?xs \<noteq> CHR ''0''"
    proof
      assume "hd ?xs = CHR ''0''"
      then have "?xs = ''0''"
        using ih by (simp add: is_decimal_def)
      then have "numeral_value ?xs = 0"
        by (simp add: numeral_value_def digit_value_def)
      with v False show False
        by simp
    qed
    then have h: "hd (str_nat n) \<noteq> CHR ''0''"
      using ne by (simp add: s)
    have "numeral_value (str_nat n) = n"
      by (simp add: s numeral_value_snoc v digit_facts(1) [OF m])
    with h dg digit_facts(2) [OF m] show ?thesis
      by (simp add: is_decimal_def s)
  qed
qed

text \<open>
  C4. If every handler declines or faults, \<^verbatim>\<open>send\<close> raises one \<^verbatim>\<open>RequestError\<close>.
  Its message is the opening text followed by entries separated by commas: one entry
  for each distinct reason text, in the order of first occurrence, made of the text and,
  in parentheses and separated by commas, the names of the handlers of all records that
  have this text; and, when there were unexpected errors, a last entry with their
  number as a decimal numeral. The handler of a record is the one the
  \<^verbatim>\<open>UnsupportedRequest\<close> refers to; where each \<^verbatim>\<open>UnsupportedRequest\<close> refers to the
  handler that raised it, the names are those of the handlers that gave the reason, in
  the order in which they were tried.
\<close>

theorem exhaustion_report:
  assumes "handlers d \<noteq> []"
    and "\<forall>g\<in>set (handlers d). skipped (store g) (prepare (merge_ydl (ydl d) request))"
  shows "(let p = prepare (merge_ydl (ydl d) request);
              errs = concat (map (\<lambda>g. declination (attempt (store g) p)) (rev (handlers d)));
              n = length (concat (map (\<lambda>g. fault (attempt (store g) p)) (rev (handlers d))))
          in result (send store prepare brm d request)
               = Inl (RequestError
                   (''Unable to handle request, possible reason(s): ''
                    @ joined '', ''
                        (map (\<lambda>e. fst e @ '' ('' @ joined '', '' (snd e) @ '')'')
                           (grouped store errs)
                         @ (if n = 0 then [] else [str_nat n @ '' unexpected error(s)'']))))
             \<and> is_decimal (str_nat n) n
             \<and> distinct (map fst (grouped store errs))
             \<and> set (map fst (grouped store errs)) = fst ` set errs
             \<and> ((\<forall>g\<in>set (handlers d). \<forall>e\<in>set (declination (attempt (store g) p)). snd e = g)
                 \<longrightarrow> grouped store errs
                     = map (\<lambda>m. (m, map (\<lambda>g. RH_NAME (store g))
                              (filter (\<lambda>g. map fst (declination (attempt (store g) p)) = [m])
                                 (rev (handlers d)))))
                         (map fst (grouped store errs))))"
proof -
  let ?p = "prepare (merge_ydl (ydl d) request)"
  let ?hs = "rev (handlers d)"
  let ?errs = "concat (map (\<lambda>g. declination (attempt (store g) ?p)) ?hs)"
  let ?faults = "concat (map (\<lambda>g. fault (attempt (store g) ?p)) ?hs)"
  let ?D = "dispatch store brm ?p ?hs (start (ydl d))"
  let ?rs = "map reason (grouped store ?errs)
      @ (if length ?faults = 0 then []
         else [str_nat (length ?faults) @ '' unexpected error(s)''])"
  have sk: "\<forall>g\<in>set ?hs. skipped (store g) ?p"
    using assms(2) by simp
  have f: "fst ?D = Continue"
    using sk by (simp add: dispatch_exhausts_iff)
  have u: "unsupported_errors (snd ?D) = ?errs"
    by (simp add: dispatch_unsupported [OF sk] start_def)
  have x: "unexpected_errors (snd ?D) = ?faults"
    by (simp add: dispatch_unexpected [OF sk] start_def)
  have "result (send store prepare brm d request)
      = Inl (RequestError (err_str (reasons store ?errs ?faults)))"
    by (simp add: result_send [OF assms(1)] Let_def f u x)
  then have r0: "result (send store prepare brm d request) = Inl (RequestError (err_str ?rs))"
    by (simp add: reasons_def err_handler_map_grouped)
  have k: "map fst (grouped store ?errs) = rev (remdups (rev (map fst ?errs)))"
    by (simp add: grouped_def comp_def)
  obtain g where g: "g \<in> set ?hs"
    using assms(1) by (cases "handlers d") auto
  then have "declination (attempt (store g) ?p) \<noteq> [] \<or> fault (attempt (store g) ?p) \<noteq> []"
    using sk by (simp add: skipped_def)
  then have "?errs \<noteq> [] \<or> ?faults \<noteq> []"
    using g by auto
  moreover have "grouped store ?errs \<noteq> []" if "?errs \<noteq> []"
  proof -
    have "map fst (grouped store ?errs) \<noteq> []"
      using that unfolding k by (simp del: concat_eq_Nil_conv)
    then show ?thesis by auto
  qed
  ultimately have ne: "?rs \<noteq> []"
    by auto
  have r1: "result (send store prepare brm d request)
      = Inl (RequestError
          (''Unable to handle request, possible reason(s): '' @ joined '', '' ?rs))"
    by (simp only: r0 err_str_joined [OF ne])
  have r: "result (send store prepare brm d request)
      = Inl (RequestError
          (''Unable to handle request, possible reason(s): ''
           @ joined '', ''
               (map (\<lambda>e. fst e @ '' ('' @ joined '', '' (snd e) @ '')'') (grouped store ?errs)
                @ (if length ?faults = 0 then []
                   else [str_nat (length ?faults) @ '' unexpected error(s)'']))))"
    unfolding r1 reason_fun ..
  have ds: "distinct (map fst (grouped store ?errs))"
    by (simp add: k)
  have ks: "set (map fst (grouped store ?errs)) = fst ` set ?errs"
    by (simp add: k)
  have b: "grouped store ?errs
      = map (\<lambda>m. (m, map (\<lambda>g. RH_NAME (store g))
                (filter (\<lambda>g. map fst (declination (attempt (store g) ?p)) = [m]) ?hs)))
          (map fst (grouped store ?errs))"
    if br: "\<forall>g\<in>set (handlers d). \<forall>e\<in>set (declination (attempt (store g) ?p)). snd e = g"
  proof -
    have br': "\<forall>g\<in>set ?hs. \<forall>e\<in>set (declination (attempt (store g) ?p)). snd e = g"
      using br by simp
    have nm: "map (\<lambda>e. RH_NAME (store (snd e))) (filter (\<lambda>e. fst e = m) ?errs)
        = map (\<lambda>g. RH_NAME (store g))
            (filter (\<lambda>g. map fst (declination (attempt (store g) ?p)) = [m]) ?hs)" for m
    proof -
      have "map (\<lambda>e. RH_NAME (store (snd e))) (filter (\<lambda>e. fst e = m) ?errs)
          = map (\<lambda>g. RH_NAME (store g)) (map snd (filter (\<lambda>e. fst e = m) ?errs))"
        by (simp add: comp_def)
      then show ?thesis
        by (simp only: declined_by [OF br'])
    qed
    have gr: "grouped store ?errs
        = map (\<lambda>m. (m, map (\<lambda>g. RH_NAME (store g))
                (filter (\<lambda>g. map fst (declination (attempt (store g) ?p)) = [m]) ?hs)))
            (rev (remdups (rev (map fst ?errs))))"
      unfolding grouped_def nm ..
    show ?thesis
      unfolding k by (rule gr)
  qed
  show ?thesis
    unfolding Let_def by (intro conjI impI r is_decimal_str_nat ds ks b)
qed

text \<open>
  C4. With handlers A, D, G registered in this order, G and A decline with the same
  reason, which the message lists once with both names, and D faults. With A, G and a
  second G, all three decline with the same reason, listed once with the three names.
\<close>

theorem exhaustion_report_witness:
  "handlers (sample_director [0, 3, 6]) \<noteq> []
   \<and> skipped (sample_store 0) (merge_ydl sample_ydl sample_request)
   \<and> skipped (sample_store 3) (merge_ydl sample_ydl sample_request)
   \<and> skipped (sample_store 6) (merge_ydl sample_ydl sample_request)
   \<and> skipped (sample_store 7) (merge_ydl sample_ydl sample_request)
   \<and> result (send sample_store (\<lambda>r. r) [] (sample_director [0, 3, 6]) sample_request)
       = Inl (RequestError
           ''Unable to handle request, possible reason(s): unsupported url scheme (G, A), 1 unexpected error(s)'')
   \<and> result (send sample_store (\<lambda>r. r) [] (sample_director [0, 6, 7]) sample_request)
       = Inl (RequestError
           ''Unable to handle request, possible reason(s): unsupported url scheme (G, G, A)'')"
proof -
  let ?y = "\<lambda>hs. merge_ydl (ydl (sample_director hs)) sample_request"
  have h: "\<And>hs. handlers (sample_director hs) = hs"
    by (simp add: sample_director_def)
  have a0: "\<And>q. attempt (sample_store 0) q = Inl (UnsupportedRequest ''unsupported url scheme'' 0)"
    and a3: "\<And>q. attempt (sample_store 3) q = Inl (OtherException ''ValueError'' ''bad state'')"
    and a6: "\<And>q. attempt (sample_store 6) q = Inl (UnsupportedRequest ''unsupported url scheme'' 6)"
    and a7: "\<And>q. attempt (sample_store 7) q = Inl (UnsupportedRequest ''unsupported url scheme'' 7)"
    by (simp_all add: attempt_def sample_store_def sample_rh_def)
  have n0: "RH_NAME (sample_store 0) = ''A''" and n6: "RH_NAME (sample_store 6) = ''G''"
    and n7: "RH_NAME (sample_store 7) = ''G''"
    by (simp_all add: sample_store_def sample_rh_def)
  have s0: "\<And>q. skipped (sample_store 0) q" and s3: "\<And>q. skipped (sample_store 3) q"
    and s6: "\<And>q. skipped (sample_store 6) q" and s7: "\<And>q. skipped (sample_store 7) q"
    by (simp_all add: skipped_def a0 a3 a6 a7)

  have 1: "handlers (sample_director [0, 3, 6]) \<noteq> []"
    by (simp add: h)
  have 2: "\<forall>g\<in>set (handlers (sample_director [0, 3, 6])). skipped (sample_store g) (?y [0, 3, 6])"
    by (simp add: h s0 s3 s6)
  note w1 = exhaustion_report [where d = "sample_director [0, 3, 6]" and store = sample_store
      and prepare = "\<lambda>r. r" and request = sample_request and brm = "[]",
      OF 1 2, unfolded Let_def, THEN conjunct1]
  have r1: "result (send sample_store (\<lambda>r. r) [] (sample_director [0, 3, 6]) sample_request)
       = Inl (RequestError
           ''Unable to handle request, possible reason(s): unsupported url scheme (G, A), 1 unexpected error(s)'')"
    using w1
    by (simp add: h a0 a3 a6 n0 n6 grouped_def joined_def str_nat.simps digit_def)

  have 3: "handlers (sample_director [0, 6, 7]) \<noteq> []"
    by (simp add: h)
  have 4: "\<forall>g\<in>set (handlers (sample_director [0, 6, 7])). skipped (sample_store g) (?y [0, 6, 7])"
    by (simp add: h s0 s6 s7)
  note w2 = exhaustion_report [where d = "sample_director [0, 6, 7]" and store = sample_store
      and prepare = "\<lambda>r. r" and request = sample_request and brm = "[]",
      OF 3 4, unfolded Let_def, THEN conjunct1]
  have r2: "result (send sample_store (\<lambda>r. r) [] (sample_director [0, 6, 7]) sample_request)
       = Inl (RequestError
           ''Unable to handle request, possible reason(s): unsupported url scheme (G, G, A)'')"
    using w2
    by (simp add: h a0 a6 a7 n0 n6 n7 grouped_def joined_def)
  show ?thesis
    by (intro conjI 1 s0 s3 s6 s7 r1 r2)
qed

end
